theory Spec2Isabelle
  imports Complex_Main "HOL-Library.Log_Nat" "HOL-Library.Sublist"
begin

section \<open>MyStation 2.0: text, numbers and exceptions of the Python program\<close>

text \<open>
  The program is one Python file. Its pure parts (\<open>format_size\<close>, the block written by
  \<open>save_history\<close>, the line parser inside \<open>plot_usage\<close>) are embedded as HOL functions;
  its menus are loops over the lines the operator types. Python exceptions are values: a
  function that may raise returns \<open>exn + 'a\<close>, with \<open>Inl\<close> for the exception.

  Text is a list of 8-bit characters, read as the code points U+0000 to U+00FF.
  A Python \<open>float\<close> that is finite is modelled by the rational number it denotes exactly
  (the sign of zero is not kept apart); conversions to \<open>float\<close> round to the nearest
  double, ties to even, as CPython does.
\<close>

subsection \<open>Exceptions\<close>

datatype exn =
    ValueError
  | IndexError
  | OverflowError
  | ZeroDivisionError
  | EOFError
  | OSError string
  | OtherException string      \<comment> \<open>any other instance of \<open>Exception\<close>, with its message\<close>
  | KeyboardInterrupt          \<comment> \<open>a \<open>BaseException\<close> that is not an \<open>Exception\<close>\<close>
  | SystemExit

fun is_Exception :: "exn \<Rightarrow> bool" where
  "is_Exception KeyboardInterrupt = False"
| "is_Exception SystemExit = False"
| "is_Exception _ = True"

subsection \<open>Characters and decimal digits\<close>

definition nl :: char where
  "nl = CHR 0x0A"

definition ESC :: char where
  "ESC = CHR 0x1B"

definition digit_char :: "int \<Rightarrow> char" where
  "digit_char d = ''0123456789'' ! nat d"

text \<open>The decimal digits of a non-negative Python int, as \<open>str\<close> writes them.\<close>

function show_int :: "int \<Rightarrow> string" where
  "show_int n = (if n < 10 then [digit_char n] else show_int (n div 10) @ [digit_char (n mod 10)])"
  by pat_completeness auto
termination
  by (relation "measure nat") auto

declare show_int.simps [simp del]

definition is_digit :: "char \<Rightarrow> bool" where
  "is_digit c = (48 \<le> (of_char c :: nat) \<and> (of_char c :: nat) \<le> 57)"

definition digit_val :: "char \<Rightarrow> nat" where
  "digit_val c = of_char c - 48"

subsection \<open>Doubles\<close>

text \<open>Round to the nearest integer, ties to the even one.\<close>

definition round_half_even :: "rat \<Rightarrow> int" where
  "round_half_even x =
     (let f = \<lfloor>x\<rfloor>; r = x - of_int f
      in if r < 1 / 2 then f
         else if 1 / 2 < r then f + 1
         else if even f then f else f + 1)"

text \<open>The exponent \<open>E\<close> with \<open>2 powi E \<le> q < 2 powi (E + 1)\<close>, for a positive \<open>q\<close>
  (\<open>powi\<close> is the power with an integer exponent).\<close>

definition floor_log2 :: "rat \<Rightarrow> int" where
  "floor_log2 q =
     (case quotient_of q of (n, d) \<Rightarrow>
        let g = bitlen n - bitlen d
        in if 2 powi g \<le> q then g else g - 1)"

text \<open>
  The double nearest to a positive rational: 53 significant bits, the unit in the last
  place never below \<open>2 ^ -1074\<close> (subnormal numbers). The result may be \<open>2 ^ 1024\<close> or
  more, which no double is: the callers turn that into an overflow.
\<close>

definition round_to_53_bits :: "rat \<Rightarrow> rat" where
  "round_to_53_bits q =
     (let e = max (floor_log2 q - 52) (- 1074)
      in of_int (round_half_even (q / 2 powi e)) * 2 powi e)"

definition nearest_double :: "rat \<Rightarrow> rat option" where
  "nearest_double q =
     (if q = 0 then Some 0
      else let v = round_to_53_bits \<bar>q\<bar>
           in if 2 ^ 1024 \<le> v then None else Some (sgn q * v))"

text \<open>\<open>a / b\<close> on two Python ints: the quotient correctly rounded, or an exception.\<close>

definition py_truediv :: "int \<Rightarrow> int \<Rightarrow> exn + rat" where
  "py_truediv a b =
     (if b = 0 then Inl ZeroDivisionError
      else case nearest_double (of_int a / of_int b) of
             None \<Rightarrow> Inl OverflowError
           | Some v \<Rightarrow> Inr v)"

text \<open>\<open>float(n)\<close> on a Python int, as the format specifier \<open>.2f\<close> applies it to an int.\<close>

definition py_float_of_int :: "int \<Rightarrow> exn + rat" where
  "py_float_of_int a =
     (case nearest_double (of_int a) of
        None \<Rightarrow> Inl OverflowError
      | Some v \<Rightarrow> Inr v)"

text \<open>
  \<open>f"{x:.2f}"\<close> on a finite float: the exact value rounded to two decimals, ties to even,
  a minus sign for a negative value, at least one digit before the point.
\<close>

definition fmt_2f :: "rat \<Rightarrow> string" where
  "fmt_2f x =
     (let n = round_half_even (\<bar>x\<bar> * 100)
      in (if x < 0 then ''-'' else '''') @ show_int (n div 100) @ ''.''
         @ [digit_char (n mod 100 div 10), digit_char (n mod 10)])"

section \<open>\<open>format_size\<close>\<close>

text \<open>
  The chain of comparisons of \<open>format_size\<close>: the magnitude and the unit it selects.
  In the last branch \<open>size\<close> is the int itself, and the format specifier converts it.
\<close>

definition size_and_unit :: "int \<Rightarrow> (exn + rat) \<times> string" where
  "size_and_unit bytes_value =
     (if bytes_value \<ge> 1024 ^ 3 then (py_truediv bytes_value (1024 ^ 3), ''GB'')
      else if bytes_value \<ge> 1024 ^ 2 then (py_truediv bytes_value (1024 ^ 2), ''MB'')
      else if bytes_value \<ge> 1024 then (py_truediv bytes_value 1024, ''KB'')
      else (py_float_of_int bytes_value, ''Bytes''))"

definition format_size :: "int \<Rightarrow> exn + string" where
  "format_size bytes_value =
     (case size_and_unit bytes_value of
        (Inl e, u) \<Rightarrow> Inl e
      | (Inr sz, u) \<Rightarrow> Inr (fmt_2f sz @ '' '' @ u))"

text \<open>
  The four units of \<open>format_size\<close> with the divisor of each, in the order of the
  comparisons.
\<close>

definition units :: "(string \<times> int) list" where
  "units = [(''GB'', 1024 ^ 3), (''MB'', 1024 ^ 2), (''KB'', 1024), (''Bytes'', 1)]"

section \<open>Python strings\<close>

text \<open>
  \<open>str.strip()\<close> removes the characters for which \<open>str.isspace\<close> holds; below U+0100
  these are the ASCII white space, the four separators U+001C to U+001F, U+0085 and U+00A0.
\<close>

definition py_isspace :: "char \<Rightarrow> bool" where
  "py_isspace c \<longleftrightarrow> c \<in> set [CHR 0x09, CHR 0x0A, CHR 0x0B, CHR 0x0C, CHR 0x0D,
     CHR 0x1C, CHR 0x1D, CHR 0x1E, CHR 0x1F, CHR 0x20, CHR 0x85, CHR 0xA0]"

definition strip :: "string \<Rightarrow> string" where
  "strip s = rev (dropWhile py_isspace (rev (dropWhile py_isspace s)))"

text \<open>\<open>s.split(c)\<close> with a separator of one character: always at least one part.\<close>

fun split :: "char \<Rightarrow> string \<Rightarrow> string list" where
  "split c [] = [[]]"
| "split c (x # xs) =
     (if x = c then [] # split c xs
      else case split c xs of
             [] \<Rightarrow> [[x]]
           | p # ps \<Rightarrow> (x # p) # ps)"

text \<open>
  \<open>s.replace(old, new)\<close>: the occurrences of \<open>old\<close> are replaced from the left, without
  overlap; an empty \<open>old\<close> matches before every character and at the end.
\<close>

function replace :: "string \<Rightarrow> string \<Rightarrow> string \<Rightarrow> string" where
  "replace old new s =
     (if old = [] then new @ concat (map (\<lambda>c. c # new) s)
      else if s = [] then []
      else if prefix old s then new @ replace old new (drop (length old) s)
      else hd s # replace old new (tl s))"
  by pat_completeness auto
termination
  by (relation "measure (\<lambda>(old, new, s). length s)") auto

declare replace.simps [simp del]

text \<open>\<open>sub in s\<close> on strings: \<open>sub\<close> occurs in \<open>s\<close> as a contiguous piece.\<close>

definition py_in :: "string \<Rightarrow> string \<Rightarrow> bool" where
  "py_in sub s = sublist sub s"

text \<open>
  Reading a text file: the newline translation of text mode (\<open>\r\n\<close> and \<open>\r\<close> become
  \<open>\n\<close>), and the lines that iterating over the file yields, each with its \<open>\n\<close> but
  for a last line that has none.
\<close>

fun universal_newlines :: "string \<Rightarrow> string" where
  "universal_newlines [] = []"
| "universal_newlines [c] = (if c = CHR 0x0D then [nl] else [c])"
| "universal_newlines (c # d # cs) =
     (if c = CHR 0x0D then
        (if d = nl then nl # universal_newlines cs else nl # universal_newlines (d # cs))
      else c # universal_newlines (d # cs))"

fun file_lines :: "string \<Rightarrow> string list" where
  "file_lines [] = []"
| "file_lines (c # cs) =
     (if c = nl then [nl] # file_lines cs
      else case file_lines cs of
             [] \<Rightarrow> [[c]]
           | l # ls \<Rightarrow> (c # l) # ls)"

subsection \<open>\<open>float(s)\<close>\<close>

datatype pyfloat = Finite rat | PosInf | NegInf | NaN

definition lower :: "char \<Rightarrow> char" where
  "lower c = (if 65 \<le> (of_char c :: nat) \<and> (of_char c :: nat) \<le> 90
              then char_of (of_char c + 32 :: nat) else c)"

text \<open>
  Underscores may group digits: each must stand between two digits. The check runs over
  the whole argument and is followed by the removal of the underscores.
\<close>

fun underscores_ok :: "char \<Rightarrow> string \<Rightarrow> bool" where
  "underscores_ok prev [] = (prev \<noteq> CHR ''_'')"
| "underscores_ok prev (c # cs) =
     (if c = CHR ''_'' then is_digit prev \<and> underscores_ok c cs
      else (prev = CHR ''_'' \<longrightarrow> is_digit c) \<and> underscores_ok c cs)"

definition digits_value :: "string \<Rightarrow> int" where
  "digits_value ds = foldl (\<lambda>a c. 10 * a + int (digit_val c)) 0 ds"

text \<open>An optional sign: the sign read (\<open>True\<close> for minus) and the rest.\<close>

fun read_sign :: "string \<Rightarrow> bool \<times> string" where
  "read_sign [] = (False, [])"
| "read_sign (c # cs) =
     (if c = CHR ''-'' then (True, cs) else if c = CHR ''+'' then (False, cs) else (False, c # cs))"

text \<open>
  An unsigned decimal literal, all of it: digits, an optional point and digits, at least
  one digit in all, an optional exponent. The value is exact.
\<close>

definition read_exponent :: "string \<Rightarrow> int option" where
  "read_exponent s =
     (case s of
        [] \<Rightarrow> Some 0
      | c # t \<Rightarrow>
          if c = CHR ''e'' \<or> c = CHR ''E'' then
            (case read_sign t of (neg, ds) \<Rightarrow>
               if ds \<noteq> [] \<and> list_all is_digit ds
               then Some (if neg then - digits_value ds else digits_value ds)
               else None)
          else None)"

definition read_decimal :: "string \<Rightarrow> rat option" where
  "read_decimal s =
     (let ip = takeWhile is_digit s; r1 = dropWhile is_digit s;
          has_point = (r1 \<noteq> [] \<and> hd r1 = CHR ''.'');
          fp = (if has_point then takeWhile is_digit (tl r1) else []);
          r2 = (if has_point then dropWhile is_digit (tl r1) else r1)
      in if ip = [] \<and> fp = [] then None
         else case read_exponent r2 of
                None \<Rightarrow> None
              | Some ex \<Rightarrow>
                  Some (of_int (digits_value (ip @ fp)) * 10 powi (ex - int (length fp))))"

text \<open>
  \<open>float(s)\<close>: white space is stripped (for this the C white space, and U+0085 and U+00A0
  which CPython turns into spaces first), then a sign and \<open>inf\<close>, \<open>infinity\<close>, \<open>nan\<close> in
  any case, or a decimal literal, which is rounded to the nearest double and is an
  infinity when too large. Anything else raises \<open>ValueError\<close>.
\<close>

definition float_isspace :: "char \<Rightarrow> bool" where
  "float_isspace c \<longleftrightarrow> c \<in> set [CHR 0x09, CHR 0x0A, CHR 0x0B, CHR 0x0C, CHR 0x0D, CHR 0x20,
     CHR 0x85, CHR 0xA0]"

definition py_float :: "string \<Rightarrow> exn + pyfloat" where
  "py_float s =
     (if \<not> underscores_ok CHR 0x00 s then Inl ValueError
      else
        let t = filter (\<lambda>c. c \<noteq> CHR ''_'') s;
            u = rev (dropWhile float_isspace (rev (dropWhile float_isspace t)))
        in case read_sign u of (neg, body) \<Rightarrow>
             if map lower body = ''inf'' \<or> map lower body = ''infinity''
             then Inr (if neg then NegInf else PosInf)
             else if map lower body = ''nan'' then Inr NaN
             else case read_decimal body of
                    None \<Rightarrow> Inl ValueError
                  | Some q \<Rightarrow>
                      (case nearest_double q of
                         None \<Rightarrow> Inr (if neg then NegInf else PosInf)
                       | Some v \<Rightarrow> Inr (Finite (if neg then - v else v))))"

section \<open>The machine the program runs on\<close>

text \<open>The colour codes of class \<open>Colors\<close> that the program uses.\<close>

definition HEADER :: string where "HEADER = ESC # ''[95m''"
definition OKBLUE :: string where "OKBLUE = ESC # ''[94m''"
definition OKCYAN :: string where "OKCYAN = ESC # ''[96m''"
definition OKGREEN :: string where "OKGREEN = ESC # ''[92m''"
definition WARNING :: string where "WARNING = ESC # ''[93m''"
definition FAIL :: string where "FAIL = ESC # ''[91m''"
definition ENDC :: string where "ENDC = ESC # ''[0m''"
definition BOLD :: string where "BOLD = ESC # ''[1m''"
definition MAGENTA :: string where "MAGENTA = ESC # ''[95m''"

text \<open>
  What lies outside the program is a parameter. The functions of the file that only drive
  the operating system (the seven maintenance actions, the startup manager, the system
  commands, the file browser) and the loops that need the metrics or the charting library
  are external actions: each is given the lines still to be typed and the state of the
  host, and answers with the number of lines it read, the new state of the host, what it
  printed, and the exception it raised, if any.
\<close>

datatype task =
    CleanTempFiles | ClearUpdateCache | ClearDnsCache | ClearPrefetch
  | OptimizeDisks | CleanRecycleBin | ClearEventLogs | ManageStartupPrograms
  | SystemCommands | BrowseFiles
  | MemoryLoop | CpuLoop | ProcessListing | LiveMonitoring

record 'os host =
  files :: "string \<rightharpoonup> string"   \<comment> \<open>the text files of the working directory\<close>
  os :: 'os

datatype 'os effect =
  Effect (consumed: nat) (new_host: "'os host") (printed: "string list") (raised: "exn option")

record datetime =
  year :: nat
  month :: nat
  day :: nat
  hour :: nat
  minute :: nat
  second :: nat

record 'os env =
  psutil :: bool                      \<comment> \<open>\<open>import psutil\<close> succeeded\<close>
  HAS_MATPLOTLIB :: bool
  os_name :: string
  path_exists :: "'os host \<Rightarrow> string \<Rightarrow> bool"
  disk_usage :: "'os host \<Rightarrow> string \<Rightarrow> exn + (int \<times> int \<times> int)"
  now :: "'os host \<Rightarrow> datetime"
  open_error :: "'os host \<Rightarrow> string \<Rightarrow> exn option"
  ext :: "task \<Rightarrow> string list \<Rightarrow> 'os host \<Rightarrow> 'os effect"

text \<open>
  The state the program acts on: the host, the texts written to standard output in
  order, the charts shown (labels, heights of the lower bars, heights of the upper bars),
  the external actions called in order, and the seconds slept.
\<close>

record 'os world =
  host :: "'os host"
  stdout :: "string list"
  charts :: "(string list \<times> pyfloat list \<times> pyfloat list) list"
  calls :: "task list"
  slept :: nat

text \<open>
  A run of a function: the number of input lines it read, the state it left, and the
  exception that ended it, if one did.
\<close>

type_synonym 'os outcome = "nat \<times> 'os world \<times> exn option"

definition print :: "string \<Rightarrow> 'os world \<Rightarrow> 'os world" where
  "print s w = w\<lparr>stdout := stdout w @ [s @ [nl]]\<rparr>"

definition prints :: "string list \<Rightarrow> 'os world \<Rightarrow> 'os world" where
  "prints ss w = foldl (\<lambda>w s. print s w) w ss"

definition write_prompt :: "string \<Rightarrow> 'os world \<Rightarrow> 'os world" where
  "write_prompt s w = w\<lparr>stdout := stdout w @ [s]\<rparr>"

definition call :: "'os env \<Rightarrow> task \<Rightarrow> string list \<Rightarrow> 'os world \<Rightarrow> 'os outcome" where
  "call env t ins w =
     (case ext env t ins (host w) of
        Effect n h out r \<Rightarrow>
          (n, w\<lparr>host := h, stdout := stdout w @ out, calls := calls w @ [t]\<rparr>, r))"

definition print_separator :: "string \<Rightarrow> 'os world \<Rightarrow> 'os world" where
  "print_separator title w =
     prints [HEADER @ [nl] @ replicate (length title) CHR ''='',
             BOLD @ title @ ENDC,
             HEADER @ replicate (length title) CHR ''='' @ ENDC] w"

section \<open>The history log\<close>

definition pad :: "nat \<Rightarrow> nat \<Rightarrow> string" where
  "pad width n = (let s = show_int (int n) in replicate (width - length s) CHR ''0'' @ s)"

text \<open>\<open>strftime("%Y-%m-%d %H:%M:%S")\<close>, the year on four digits.\<close>

definition strftime :: "datetime \<Rightarrow> string" where
  "strftime t = pad 4 (year t) @ ''-'' @ pad 2 (month t) @ ''-'' @ pad 2 (day t) @ '' ''
     @ pad 2 (hour t) @ '':'' @ pad 2 (minute t) @ '':'' @ pad 2 (second t)"

definition history_filename :: string where
  "history_filename = ''disk_usage_history.txt''"

text \<open>The line of one drive; the three sizes are formatted from left to right.\<close>

definition history_line :: "string \<Rightarrow> int \<times> int \<times> int \<Rightarrow> exn + string" where
  "history_line drive usage =
     (case usage of (total_bytes, used_bytes, free_bytes) \<Rightarrow>
        case format_size total_bytes of Inl e \<Rightarrow> Inl e | Inr t \<Rightarrow>
        case format_size used_bytes of Inl e \<Rightarrow> Inl e | Inr u \<Rightarrow>
        case format_size free_bytes of Inl e \<Rightarrow> Inl e | Inr f \<Rightarrow>
          Inr (drive @ '' | Total: '' @ t @ '' | Used: '' @ u @ '' | Free: '' @ f @ [nl]))"

text \<open>
  The loop over \<open>data.items()\<close>: the dict is the list of its items in insertion order.
  What was written before an exception stays in the file.
\<close>

fun write_snapshots :: "(string \<times> int \<times> int \<times> int) list \<Rightarrow> string \<Rightarrow> string \<times> exn option" where
  "write_snapshots [] content = (content, None)"
| "write_snapshots ((drive, usage) # rest) content =
     (case history_line drive usage of
        Inl e \<Rightarrow> (content, Some e)
      | Inr l \<Rightarrow> write_snapshots rest (content @ l))"

definition save_history ::
  "'os env \<Rightarrow> (string \<times> int \<times> int \<times> int) list \<Rightarrow> string \<Rightarrow> 'os world \<Rightarrow> 'os world \<times> exn option" where
  "save_history env data filename w =
     (case open_error env (host w) filename of
        Some e \<Rightarrow> (w, Some e)
      | None \<Rightarrow>
          let old = (case files (host w) filename of None \<Rightarrow> [] | Some c \<Rightarrow> c);
              timestamp = strftime (now env (host w));
              c1 = old @ [nl] @ MAGENTA @ replicate 40 CHR ''-'' @ [nl];
              c2 = c1 @ ''Timestamp: '' @ timestamp @ [nl]
          in case write_snapshots data c2 of
               (c, Some e) \<Rightarrow> (w\<lparr>host := (host w)\<lparr>files := (files (host w))(filename \<mapsto> c)\<rparr>\<rparr>, Some e)
             | (c, None) \<Rightarrow>
                 (print (OKCYAN @ [nl] @ ''Data saved to '' @ [CHR 0x27] @ filename @ [CHR 0x27] @ ENDC)
                    (w\<lparr>host := (host w)\<lparr>files := (files (host w))(filename \<mapsto> c)\<rparr>\<rparr>), None))"

text \<open>
  The parser inside \<open>plot_usage\<close>. \<open>field_value\<close> is the argument of one \<open>float(...)\<close> call
  with the call; \<open>parse_line\<close> is the body of the loop over the lines, on the three lists
  \<open>disks\<close>, \<open>used_sizes\<close> and \<open>free_sizes\<close>; the bare \<open>except\<close> leaves them as they are.
\<close>

definition field_value :: "string \<Rightarrow> exn + pyfloat" where
  "field_value part =
     (let ps = split CHR '':'' part
      in if length ps < 2 then Inl IndexError
         else py_float (replace '' GB'' '''' (strip (ps ! 1))))"

definition parse_line ::
  "string \<Rightarrow> string list \<times> pyfloat list \<times> pyfloat list \<Rightarrow> string list \<times> pyfloat list \<times> pyfloat list" where
  "parse_line line acc =
     (case acc of (disks, used_sizes, free_sizes) \<Rightarrow>
        if py_in ''Total'' line then
          let parts = split CHR ''|'' (strip line)
          in if length parts \<ge> 3 then
               let drive_name = strip (hd (split CHR '':'' (parts ! 0)))
               in case field_value (parts ! 1) of
                    Inl e \<Rightarrow> acc
                  | Inr used_value \<Rightarrow>
                      (case field_value (parts ! 2) of
                         Inl e \<Rightarrow> acc
                       | Inr free_value \<Rightarrow>
                           (disks @ [drive_name], used_sizes @ [used_value],
                            free_sizes @ [free_value]))
             else acc
        else acc)"

definition parse_history :: "string \<Rightarrow> string list \<times> pyfloat list \<times> pyfloat list" where
  "parse_history content =
     foldl (\<lambda>acc line. parse_line line acc) ([], [], []) (file_lines (universal_newlines content))"

definition plot_usage :: "'os env \<Rightarrow> 'os world \<Rightarrow> 'os world \<times> exn option" where
  "plot_usage env w =
     (if \<not> HAS_MATPLOTLIB env then
        (print (FAIL @ ''Error: matplotlib is not installed. Install with ''
                @ [CHR 0x27] @ ''pip install matplotlib'' @ [CHR 0x27] @ ''.'' @ ENDC) w, None)
      else case files (host w) history_filename of
        None \<Rightarrow> (print (WARNING @ ''No data to display.'' @ ENDC) w, None)
      | Some content \<Rightarrow>
          (case open_error env (host w) history_filename of
             Some e \<Rightarrow> (w, Some e)
           | None \<Rightarrow>
               (case parse_history content of (disks, used_sizes, free_sizes) \<Rightarrow>
                  if disks \<noteq> [] then (w\<lparr>charts := charts w @ [(disks, used_sizes, free_sizes)]\<rparr>, None)
                  else (w, None))))"

section \<open>Checking the disks\<close>

definition ascii_uppercase :: string where
  "ascii_uppercase = ''ABCDEFGHIJKLMNOPQRSTUVWXYZ''"

definition get_disks :: "'os env \<Rightarrow> 'os host \<Rightarrow> string list" where
  "get_disks env h =
     (if os_name env = ''nt''
      then map (\<lambda>d. [d, CHR '':'', CHR 0x5C, CHR '' ''])
             (filter (\<lambda>d. path_exists env h [d, CHR '':'', CHR 0x5C]) ascii_uppercase)
      else [''/''])"

definition check_disk ::
  "'os env \<Rightarrow> string \<Rightarrow> 'os world \<Rightarrow> 'os world \<times> (exn + int \<times> int \<times> int)" where
  "check_disk env drive w =
     (case disk_usage env (host w) drive of
        Inl e \<Rightarrow> (w, Inl e)
      | Inr (total_bytes, used_bytes, free_bytes) \<Rightarrow>
          let w1 = print_separator (''Disk: '' @ drive) w
          in case format_size total_bytes of Inl e \<Rightarrow> (w1, Inl e) | Inr t \<Rightarrow>
             let w2 = print (OKGREEN @ ''  Total size: '' @ t @ ENDC) w1
             in case format_size used_bytes of Inl e \<Rightarrow> (w2, Inl e) | Inr u \<Rightarrow>
                let w3 = print (OKBLUE @ ''  Used: '' @ u @ ENDC) w2
                in case format_size free_bytes of Inl e \<Rightarrow> (w3, Inl e) | Inr f \<Rightarrow>
                   (print (WARNING @ ''  Free: '' @ f @ ENDC) w3,
                    Inr (total_bytes, used_bytes, free_bytes)))"

text \<open>\<open>usage_data[d] = ...\<close> on the dict as the list of its items.\<close>

fun dict_set :: "'k \<Rightarrow> 'v \<Rightarrow> ('k \<times> 'v) list \<Rightarrow> ('k \<times> 'v) list" where
  "dict_set k v [] = [(k, v)]"
| "dict_set k v (p # ps) = (if fst p = k then (k, v) # ps else p # dict_set k v ps)"

fun check_all ::
  "'os env \<Rightarrow> string list \<Rightarrow> (string \<times> int \<times> int \<times> int) list \<Rightarrow> 'os world
    \<Rightarrow> 'os world \<times> (exn + (string \<times> int \<times> int \<times> int) list)" where
  "check_all env [] usage_data w = (w, Inr usage_data)"
| "check_all env (d # ds) usage_data w =
     (case check_disk env d w of
        (w', Inl e) \<Rightarrow> (w', Inl e)
      | (w', Inr usage) \<Rightarrow> check_all env ds (dict_set d usage usage_data) w')"

text \<open>Menu item 1 of \<open>main\<close>.\<close>

definition check_disks :: "'os env \<Rightarrow> 'os world \<Rightarrow> 'os world \<times> exn option" where
  "check_disks env w =
     (case check_all env (get_disks env (host w)) [] w of
        (w', Inl e) \<Rightarrow> (w', Some e)
      | (w', Inr usage_data) \<Rightarrow> save_history env usage_data history_filename w')"

section \<open>Actions that need a library\<close>

definition monitor_memory :: "'os env \<Rightarrow> string list \<Rightarrow> 'os world \<Rightarrow> 'os outcome" where
  "monitor_memory env ins w =
     (if \<not> psutil env
      then (0, print (FAIL @ ''psutil is not installed. Memory monitoring is unavailable.'' @ ENDC) w, None)
      else call env MemoryLoop ins w)"

definition monitor_cpu :: "'os env \<Rightarrow> string list \<Rightarrow> 'os world \<Rightarrow> 'os outcome" where
  "monitor_cpu env ins w =
     (if \<not> psutil env
      then (0, print (FAIL @ ''psutil is not installed, CPU is unavailable.'' @ ENDC) w, None)
      else call env CpuLoop ins w)"

definition live_monitoring :: "'os env \<Rightarrow> string list \<Rightarrow> 'os world \<Rightarrow> 'os outcome" where
  "live_monitoring env ins w =
     (if \<not> psutil env \<or> \<not> HAS_MATPLOTLIB env
      then (0, print (FAIL @ ''psutil and matplotlib are required.'' @ ENDC) w, None)
      else call env LiveMonitoring ins w)"

definition list_processes :: "'os env \<Rightarrow> string list \<Rightarrow> 'os world \<Rightarrow> 'os outcome" where
  "list_processes env ins w =
     (if \<not> psutil env
      then (0, print (FAIL @ ''psutil is not installed. Unable to get processes.'' @ ENDC) w, None)
      else call env ProcessListing ins (print_separator ''System Processes'' w))"

section \<open>Windows optimization\<close>

text \<open>The message of an exception, \<open>str(e)\<close>; the exceptions of the model itself carry none.\<close>

fun exn_str :: "exn \<Rightarrow> string" where
  "exn_str (OSError m) = m"
| "exn_str (OtherException m) = m"
| "exn_str _ = []"

definition optimizations :: "(string \<times> task) list" where
  "optimizations =
     [(''Cleaning temporary files'', CleanTempFiles),
      (''Clearing update cache'', ClearUpdateCache),
      (''Clearing DNS cache'', ClearDnsCache),
      (''Clearing prefetch'', ClearPrefetch),
      (''Optimizing disks'', OptimizeDisks),
      (''Cleaning Recycle Bin'', CleanRecycleBin),
      (''Clearing event logs'', ClearEventLogs)]"

text \<open>
  The loop of \<open>run_all_optimizations\<close> over a list of tasks. \<open>except Exception\<close> catches the
  exceptions for which \<open>is_Exception\<close> holds; another one leaves the loop and the function.
\<close>

fun run_tasks :: "'os env \<Rightarrow> (string \<times> task) list \<Rightarrow> string list \<Rightarrow> 'os world \<Rightarrow> 'os outcome" where
  "run_tasks env [] ins w = (0, w, None)"
| "run_tasks env ((task_name, task_func) # rest) ins w =
     (case call env task_func ins (print ([nl] @ OKCYAN @ ''>>> '' @ task_name @ ''...'' @ ENDC) w) of
        (n, w1, r) \<Rightarrow>
          if (case r of None \<Rightarrow> False | Some e \<Rightarrow> \<not> is_Exception e) then (n, w1, r)
          else
            let w2 = (case r of
                        None \<Rightarrow> w1
                      | Some e \<Rightarrow> print (FAIL @ ''Error during '' @ task_name @ '': '' @ exn_str e @ ENDC) w1);
                w3 = w2\<lparr>slept := slept w2 + 1\<rparr>
            in case run_tasks env rest (drop n ins) w3 of
                 (m, w4, r') \<Rightarrow> (n + m, w4, r'))"

definition run_all_optimizations :: "'os env \<Rightarrow> string list \<Rightarrow> 'os world \<Rightarrow> 'os outcome" where
  "run_all_optimizations env ins w =
     (case run_tasks env optimizations ins
             (print (HEADER @ ''Running all Windows optimizations...'' @ ENDC) w) of
        (n, w', Some e) \<Rightarrow> (n, w', Some e)
      | (n, w', None) \<Rightarrow> (n, print (OKGREEN @ [nl] @ ''All optimizations completed!'' @ ENDC) w', None))"

definition optimization_menu :: "string list" where
  "optimization_menu =
     [OKGREEN @ ''1.'' @ ENDC @ '' Clean Temporary Files'',
      OKGREEN @ ''2.'' @ ENDC @ '' Clear Windows Update Cache'',
      OKGREEN @ ''3.'' @ ENDC @ '' Clear DNS Cache'',
      OKGREEN @ ''4.'' @ ENDC @ '' Clear Windows Prefetch'',
      OKGREEN @ ''5.'' @ ENDC @ '' Optimize Disk Drives (Defrag)'',
      OKGREEN @ ''6.'' @ ENDC @ '' Clean Recycle Bin'',
      OKGREEN @ ''7.'' @ ENDC @ '' Clear Windows Event Logs'',
      OKGREEN @ ''8.'' @ ENDC @ '' Disable Unnecessary Startup Programs'',
      OKGREEN @ ''9.'' @ ENDC @ '' Run All Optimizations'',
      WARNING @ ''0.'' @ ENDC @ '' Return to Main Menu'']"

text \<open>The chain of comparisons after \<open>choice == '0'\<close> in the loop of \<open>windows_optimization\<close>.\<close>

definition optimization_dispatch ::
  "'os env \<Rightarrow> string \<Rightarrow> string list \<Rightarrow> 'os world \<Rightarrow> 'os outcome" where
  "optimization_dispatch env choice ins w =
     (if choice = ''1'' then call env CleanTempFiles ins w
      else if choice = ''2'' then call env ClearUpdateCache ins w
      else if choice = ''3'' then call env ClearDnsCache ins w
      else if choice = ''4'' then call env ClearPrefetch ins w
      else if choice = ''5'' then call env OptimizeDisks ins w
      else if choice = ''6'' then call env CleanRecycleBin ins w
      else if choice = ''7'' then call env ClearEventLogs ins w
      else if choice = ''8'' then call env ManageStartupPrograms ins w
      else if choice = ''9'' then run_all_optimizations env ins w
      else (0, print (FAIL @ ''Invalid choice. Please try again.'' @ ENDC) w, None))"

text \<open>
  The \<open>while True\<close> loop of \<open>windows_optimization\<close>, on the lines still to be typed:
  \<open>input\<close> writes its prompt, takes the first line, and raises \<open>EOFError\<close> when there is
  none.
\<close>

function optimization_loop :: "'os env \<Rightarrow> string list \<Rightarrow> 'os world \<Rightarrow> 'os outcome" where
  "optimization_loop env [] w =
     (0, write_prompt ''Select optimization task: '' (prints optimization_menu w), Some EOFError)"
| "optimization_loop env (choice # rest) w =
     (let w1 = write_prompt ''Select optimization task: '' (prints optimization_menu w)
      in if choice = ''0'' then (1, w1, None)
         else case optimization_dispatch env choice rest w1 of
                (n, w2, Some e) \<Rightarrow> (1 + n, w2, Some e)
              | (n, w2, None) \<Rightarrow>
                  (case optimization_loop env (drop n rest) w2 of
                     (m, w3, r) \<Rightarrow> (1 + n + m, w3, r)))"
  by pat_completeness auto
termination
  by (relation "measure (\<lambda>(env, ins, w). length ins)") auto

definition windows_optimization :: "'os env \<Rightarrow> string list \<Rightarrow> 'os world \<Rightarrow> 'os outcome" where
  "windows_optimization env ins w =
     (if os_name env \<noteq> ''nt''
      then (0, print (FAIL @ ''This feature is only available on Windows systems.'' @ ENDC) w, None)
      else optimization_loop env ins (print_separator ''Windows System Optimization'' w))"

section \<open>The main menu\<close>

definition main_title :: string where
  "main_title = ''MyStation: Memory and data view. Simple.'' @ [nl] @ ''v2.0'' @ [nl] @ ''By - InkWizy''"

definition main_menu :: "string list" where
  "main_menu =
     [OKGREEN @ ''1.'' @ ENDC @ '' Check Disks'',
      OKGREEN @ ''2.'' @ ENDC @ '' Memory Monitoring'' @ WARNING
        @ '' (Warning: This feature overrides all others.)'',
      OKGREEN @ ''3.'' @ ENDC @ '' CPU Monitoring'' @ WARNING
        @ '' (Warning: This feature overrides all others.)'',
      OKGREEN @ ''4.'' @ ENDC @ '' Usage Graphs'',
      OKGREEN @ ''5.'' @ ENDC @ '' View Processes'',
      OKGREEN @ ''6.'' @ ENDC @ '' System Management'',
      OKGREEN @ ''7.'' @ ENDC @ '' File Browser'',
      OKGREEN @ ''8.'' @ ENDC @ '' Windows System Optimization'',
      WARNING @ ''9.'' @ ENDC @ '' Extended Features (Coming soon!)'',
      FAIL @ ''10.'' @ ENDC @ '' Exit'']"

text \<open>What one pass of the loop of \<open>main\<close> writes before it reads the choice.\<close>

definition show_main_menu :: "'os world \<Rightarrow> 'os world" where
  "show_main_menu w =
     write_prompt ''Select a menu item: '' (prints main_menu (print_separator main_title w))"

datatype control = Continue | Break

text \<open>
  The chain of comparisons of \<open>main\<close> on the choice read: the run of the branch taken
  and whether it ends with \<open>break\<close>.
\<close>

definition main_dispatch ::
  "'os env \<Rightarrow> string \<Rightarrow> string list \<Rightarrow> 'os world \<Rightarrow> 'os outcome \<times> control" where
  "main_dispatch env choice ins w =
     (if choice = ''1'' then (case check_disks env w of (w', r) \<Rightarrow> ((0, w', r), Continue))
      else if choice = ''2'' then (monitor_memory env ins w, Continue)
      else if choice = ''3'' then (monitor_cpu env ins w, Continue)
      else if choice = ''4'' then (case plot_usage env w of (w', r) \<Rightarrow> ((0, w', r), Continue))
      else if choice = ''5'' then (list_processes env ins w, Continue)
      else if choice = ''6'' then (call env SystemCommands ins w, Continue)
      else if choice = ''7'' then (call env BrowseFiles ins w, Continue)
      else if choice = ''8'' then (windows_optimization env ins w, Continue)
      else if choice = ''9'' then (live_monitoring env ins w, Continue)
      else if choice = ''10'' then ((0, print ''Exiting...'' w, None), Break)
      else ((0, print ''Invalid choice. Please try again.'' w, None), Continue))"

function main :: "'os env \<Rightarrow> string list \<Rightarrow> 'os world \<Rightarrow> 'os outcome" where
  "main env [] w = (0, show_main_menu w, Some EOFError)"
| "main env (choice # rest) w =
     (case main_dispatch env choice rest (show_main_menu w) of
        ((n, w2, Some e), c) \<Rightarrow> (1 + n, w2, Some e)
      | ((n, w2, None), Break) \<Rightarrow> (1 + n, w2, None)
      | ((n, w2, None), Continue) \<Rightarrow>
          (case main env (drop n rest) w2 of
             (m, w3, r) \<Rightarrow> (1 + n + m, w3, r)))"
  by pat_completeness auto
termination
  by (relation "measure (\<lambda>(env, ins, w). length ins)") auto

section \<open>A machine to run examples on\<close>

text \<open>
  A POSIX host with neither of the optional libraries, where every file can be opened,
  no drive answers, and each external action raises an exception with the message
  \<open>failed\<close> when the host state says so and returns at once otherwise.
\<close>

definition example_env :: "(task \<Rightarrow> bool) env" where
  "example_env =
     \<lparr>psutil = False, HAS_MATPLOTLIB = False, os_name = ''posix'',
      path_exists = (\<lambda>h p. False),
      disk_usage = (\<lambda>h p. Inl (OSError ''no such drive'')),
      now = (\<lambda>h. \<lparr>year = 2024, month = 3, day = 9, hour = 14, minute = 5, second = 7\<rparr>),
      open_error = (\<lambda>h p. None),
      ext = (\<lambda>t ins h. Effect 0 h [] (if os h t then Some (OtherException ''failed'') else None))\<rparr>"

definition example_world :: "(task \<Rightarrow> bool) \<Rightarrow> (task \<Rightarrow> bool) world" where
  "example_world failing =
     \<lparr>host = \<lparr>files = Map.empty, os = failing\<rparr>, stdout = [], charts = [], calls = [], slept = 0\<rparr>"

text \<open>The lines that the chain of comparisons of \<open>main\<close> recognises.\<close>

definition main_choices :: "string list" where
  "main_choices = [''1'', ''2'', ''3'', ''4'', ''5''] @ [''6'', ''7'', ''8'', ''9'', ''10'']"

text \<open>
  Host states for the examples: nothing fails, or exactly one external action does. In
  \<open>interrupted_env\<close>, a Windows host, the action that the host state marks is interrupted
  from the keyboard and raises \<open>KeyboardInterrupt\<close>.
\<close>

definition nothing_fails :: "task \<Rightarrow> bool" where
  "nothing_fails t = False"



section \<open>Properties of the rounding to a double\<close>

lemma rhe_of_int: "round_half_even (of_int n) = n"
  by (simp add: round_half_even_def)

lemma rhe_bounds: "of_int (round_half_even x) - 1/2 \<le> x \<and> x \<le> of_int (round_half_even x) + 1/2"
  unfolding round_half_even_def Let_def by (auto; linarith)

lemma rhe_le: "x \<le> of_int N \<Longrightarrow> round_half_even x \<le> N"
  unfolding round_half_even_def Let_def
  by (auto simp: floor_le_iff le_floor_iff; linarith)

lemma rhe_ge: "of_int N \<le> x \<Longrightarrow> N \<le> round_half_even x"
  unfolding round_half_even_def Let_def
  by (auto simp: le_floor_iff; linarith)


lemma floor_log2_bounds:
  assumes "0 < q"
  shows "2 powi floor_log2 q \<le> q" and "q < 2 powi (floor_log2 q + 1)"
proof -
  obtain n d where nd: "quotient_of q = (n, d)" by (cases "quotient_of q")
  have d: "0 < d" using quotient_of_denom_pos[OF nd] .
  have q: "q = of_int n / of_int d" using quotient_of_div[OF nd] .
  have n: "0 < n" using assms d q by (simp add: zero_less_divide_iff)
  define bn where "bn = bitlen n"
  define bd where "bd = bitlen d"
  have b1: "1 \<le> bn" "1 \<le> bd"
    using n d bitlen_eq_zero_iff[of n] bitlen_eq_zero_iff[of d] bitlen_nonneg[of n] bitlen_nonneg[of d]
    unfolding bn_def bd_def by linarith+
  have pw: "(2::rat) powi k = of_int (2 ^ nat k)" if "0 \<le> k" for k
    using that by (simp add: power_int_def)
  have rn1: "(2::rat) powi (bn - 1) \<le> of_int n"
    using bitlen_bounds[OF n] b1 unfolding bn_def[symmetric] by (subst pw) (simp_all only: of_int_le_iff)
  have rn2: "of_int n < (2::rat) powi bn"
    using bitlen_bounds[OF n] b1 unfolding bn_def[symmetric] by (subst pw) (simp_all only: of_int_less_iff)
  have rd1: "(2::rat) powi (bd - 1) \<le> of_int d"
    using bitlen_bounds[OF d] b1 unfolding bd_def[symmetric] by (subst pw) (simp_all only: of_int_le_iff)
  have rd2: "of_int d < (2::rat) powi bd"
    using bitlen_bounds[OF d] b1 unfolding bd_def[symmetric] by (subst pw) (simp_all only: of_int_less_iff)
  have dpos: "(0::rat) < of_int d" and npos: "(0::rat) < of_int n" using d n by simp_all
  have e1: "(2::rat) powi (bn - bd - 1) = 2 powi (bn - 1) / 2 powi bd"
  proof -
    have eq: "bn - bd - 1 = (bn - 1) - bd" by simp
    show ?thesis unfolding eq by (rule power_int_diff) simp
  qed
  have e2: "(2::rat) powi (bn - bd + 1) = 2 powi bn / 2 powi (bd - 1)"
  proof -
    have eq: "bn - bd + 1 = bn - (bd - 1)" by simp
    show ?thesis unfolding eq by (rule power_int_diff) simp
  qed
  have "2 powi (bn - 1) * of_int d < of_int n * (2::rat) powi bd"
    by (rule mult_le_less_imp_less[OF rn1 rd2]) (use dpos in simp_all)
  then have lo: "2 powi (bn - bd - 1) < q"
    unfolding e1 q using dpos by (simp add: field_simps)
  have "of_int n * 2 powi (bd - 1) < (2::rat) powi bn * of_int d"
    by (rule mult_less_le_imp_less[OF rn2 rd1]) (use npos in simp_all)
  then have hi: "q < 2 powi (bn - bd + 1)"
    unfolding e2 q using dpos by (simp add: field_simps)
  show "2 powi floor_log2 q \<le> q"
    using lo by (simp add: floor_log2_def nd Let_def bn_def bd_def)
  show "q < 2 powi (floor_log2 q + 1)"
    using hi by (auto simp add: floor_log2_def nd Let_def bn_def bd_def not_le)
qed

lemma floor_log2_less: "0 < q \<Longrightarrow> q < 2 powi K \<Longrightarrow> floor_log2 q < K"
  using floor_log2_bounds(1)[of q] power_int_increasing[of K "floor_log2 q" "2::rat"]
  by (cases "floor_log2 q < K") auto

lemma floor_log2_ge: "0 < q \<Longrightarrow> 2 powi K \<le> q \<Longrightarrow> K \<le> floor_log2 q"
  using floor_log2_bounds(2)[of q] power_int_increasing[of "floor_log2 q + 1" K "2::rat"]
  by (cases "K \<le> floor_log2 q") auto


lemma round_to_53_bits_exact:
  assumes a: "0 < a" "a < 2 ^ 53" and k: "- 1074 \<le> k"
  shows "round_to_53_bits (of_int a * 2 powi k) = of_int a * 2 powi k"
proof -
  let ?q = "of_int a * (2::rat) powi k"
  have qpos: "0 < ?q" using a by simp
  have "of_int a < (2::rat) ^ 53" using a(2) by (metis of_int_less_iff of_int_numeral of_int_power)
  then have "?q < 2 powi 53 * 2 powi k" by simp
  also have "\<dots> = 2 powi (53 + k)" by (simp add: power_int_add)
  finally have "floor_log2 ?q < 53 + k" using floor_log2_less[OF qpos] by simp
  define e where "e = max (floor_log2 ?q - 52) (- 1074)"
  have ek: "e \<le> k" using \<open>floor_log2 ?q < 53 + k\<close> k unfolding e_def by simp
  have "?q / 2 powi e = of_int a * 2 powi (k - e)"
    by (simp add: power_int_diff)
  also have "\<dots> = of_int (a * 2 ^ nat (k - e))"
    using ek by (simp add: power_int_def)
  finally have int_eq: "?q / 2 powi e = of_int (a * 2 ^ nat (k - e))" .
  have "(of_int (round_half_even (?q / 2 powi e)) :: rat) = ?q / 2 powi e"
    by (simp only: int_eq rhe_of_int)
  then have "of_int (round_half_even (?q / 2 powi e)) * 2 powi e = ?q / 2 powi e * 2 powi e"
    by simp
  also have "\<dots> = ?q" by simp
  finally show ?thesis unfolding round_to_53_bits_def Let_def e_def[symmetric] .
qed


lemma rhe_lt_half: "x < of_int N - 1/2 \<Longrightarrow> round_half_even x \<le> N - 1"
  using rhe_bounds[of x] by linarith

lemma rhe_ge_half:
  assumes "of_int N - 1/2 \<le> x" and "even N"
  shows "N \<le> round_half_even x"
proof (cases "x = of_int N - 1/2")
  case True
  have fl: "\<lfloor>x\<rfloor> = N - 1" unfolding True by linarith
  show ?thesis using assms(2) unfolding round_half_even_def Let_def fl
    by (simp add: True)
next
  case False
  then show ?thesis using assms(1) rhe_bounds[of x] by linarith
qed

lemma round_to_53_bits_error:
  assumes "0 < q"
  shows "\<bar>round_to_53_bits q - q\<bar> \<le> 2 powi (max (floor_log2 q - 52) (- 1074)) / 2"
proof -
  define e where "e = max (floor_log2 q - 52) (- 1074)"
  define x where "x = q / 2 powi e"
  have p: "(0::rat) < 2 powi e" by simp
  have q: "q = x * 2 powi e" unfolding x_def by simp
  have "\<bar>of_int (round_half_even x) - x\<bar> \<le> 1 / 2" using rhe_bounds[of x] by linarith
  then have "\<bar>of_int (round_half_even x) - x\<bar> * 2 powi e \<le> 1 / 2 * 2 powi e"
    using p by (intro mult_right_mono) simp_all
  moreover have "\<bar>of_int (round_half_even x) - x\<bar> * 2 powi e = \<bar>of_int (round_half_even x) * 2 powi e - q\<bar>"
    unfolding q using p by (simp add: abs_mult_pos left_diff_distrib)
  ultimately show ?thesis
    unfolding round_to_53_bits_def Let_def e_def[symmetric] x_def[symmetric] by simp
qed

lemma round_to_53_bits_overflow:
  assumes "2 ^ 1024 - 2 ^ 970 \<le> q"
  shows "2 ^ 1024 \<le> round_to_53_bits q"
proof -
  have qpos: "0 < q" using assms by (rule less_le_trans[rotated]) simp
  have "(2::rat) powi 1023 \<le> 2 ^ 1024 - 2 ^ 970" by (simp add: power_int_def)
  then have F: "1023 \<le> floor_log2 q" using floor_log2_ge[OF qpos] assms by simp
  define e where "e = max (floor_log2 q - 52) (- 1074)"
  have e: "e = floor_log2 q - 52" using F unfolding e_def by simp
  show ?thesis
  proof (cases "floor_log2 q = 1023")
    case True
    then have e971: "e = 971" using e by simp
    have "of_int (2 ^ 53) - 1 / 2 \<le> q / 2 powi 971"
      using assms by (simp add: power_int_def field_simps)
    then have "2 ^ 53 \<le> round_half_even (q / 2 powi 971)"
      by (rule rhe_ge_half) simp
    then have "(2::rat) ^ 53 \<le> of_int (round_half_even (q / 2 powi 971))"
      by (metis of_int_le_iff of_int_numeral of_int_power)
    then have "(2::rat) ^ 53 * 2 powi 971 \<le> of_int (round_half_even (q / 2 powi 971)) * 2 powi 971"
      by (intro mult_right_mono) simp_all
    then show ?thesis unfolding round_to_53_bits_def Let_def e_def[symmetric] e971
      by (simp add: power_int_def)
  next
    case False
    then have F': "1024 \<le> floor_log2 q" using F by simp
    have Fe: "floor_log2 q = 52 + e" using e by simp
    have sp: "(2::rat) powi (52 + e) = 2 powi 52 * 2 powi e" by (rule power_int_add) simp
    have lo: "2 powi floor_log2 q \<le> q" using floor_log2_bounds(1)[OF qpos] .
    then have "2 powi 52 * 2 powi e \<le> q" unfolding Fe sp .
    then have "of_int (2 ^ 52) \<le> q / 2 powi e" by (simp add: field_simps)
    then have "2 ^ 52 \<le> round_half_even (q / 2 powi e)" by (rule rhe_ge)
    then have "(2::rat) ^ 52 \<le> of_int (round_half_even (q / 2 powi e))"
      by (metis of_int_le_iff of_int_numeral of_int_power)
    then have "(2::rat) powi 52 \<le> of_int (round_half_even (q / 2 powi e))"
      by simp
    then have m: "(2::rat) powi 52 * 2 powi e \<le> of_int (round_half_even (q / 2 powi e)) * 2 powi e"
      by (intro mult_right_mono) simp_all
    have "(2::rat) ^ 1024 = 2 powi 1024" by simp
    also have "\<dots> \<le> 2 powi floor_log2 q"
      using F' by (intro power_int_increasing) simp_all
    also have "\<dots> = 2 powi 52 * 2 powi e" unfolding Fe sp ..
    also note m
    finally show ?thesis unfolding round_to_53_bits_def Let_def e_def[symmetric] .
  qed
qed

lemma round_to_53_bits_no_overflow:
  assumes qpos: "0 < q" and q: "q < 2 ^ 1024 - 2 ^ 970"
  shows "round_to_53_bits q < 2 ^ 1024"
proof -
  have "q < 2 powi 1024" using q by simp
  then have F: "floor_log2 q < 1024" using floor_log2_less[OF qpos] by simp
  define e where "e = max (floor_log2 q - 52) (- 1074)"
  show ?thesis
  proof (cases "floor_log2 q = 1023")
    case True
    then have e971: "e = 971" unfolding e_def by simp
    have "q / 2 powi 971 < of_int (2 ^ 53) - 1 / 2"
      using q by (simp add: power_int_def field_simps)
    then have "round_half_even (q / 2 powi 971) \<le> 2 ^ 53 - 1"
      by (rule rhe_lt_half)
    then have "(of_int (round_half_even (q / 2 powi 971)) :: rat) \<le> of_int (2 ^ 53 - 1)"
      by (simp only: of_int_le_iff)
    then have "of_int (round_half_even (q / 2 powi 971)) * 2 powi 971 \<le> (of_int (2 ^ 53 - 1) :: rat) * 2 powi 971"
      by (intro mult_right_mono) simp_all
    also have "\<dots> < 2 ^ 1024" by (simp add: power_int_def)
    finally show ?thesis unfolding round_to_53_bits_def Let_def e_def[symmetric] e971 .
  next
    case False
    then have F': "floor_log2 q + 1 \<le> 1023" using F by simp
    show ?thesis
    proof (cases "e \<le> floor_log2 q + 1")
      case ee: True
      have sp: "(2::rat) powi (floor_log2 q + 1) = 2 powi (floor_log2 q + 1 - e) * 2 powi e"
        by (simp flip: power_int_add)
      have "q < 2 powi (floor_log2 q + 1)" using floor_log2_bounds(2)[OF qpos] .
      then have "q / 2 powi e < 2 powi (floor_log2 q + 1 - e)"
        unfolding sp by (simp add: field_simps)
      also have "\<dots> = of_int (2 ^ nat (floor_log2 q + 1 - e))"
        using ee by (simp add: power_int_def)
      finally have "round_half_even (q / 2 powi e) \<le> 2 ^ nat (floor_log2 q + 1 - e)"
        by (intro rhe_le) simp
      then have "(of_int (round_half_even (q / 2 powi e)) :: rat) \<le> of_int (2 ^ nat (floor_log2 q + 1 - e))"
        by (simp only: of_int_le_iff)
      also have "\<dots> = 2 powi (floor_log2 q + 1 - e)"
        using ee by (simp add: power_int_def)
      finally have "of_int (round_half_even (q / 2 powi e)) * 2 powi e \<le> (2::rat) powi (floor_log2 q + 1 - e) * 2 powi e"
        by (intro mult_right_mono) simp_all
      also have "\<dots> = 2 powi (floor_log2 q + 1)" unfolding sp[symmetric] ..
      also have "\<dots> \<le> 2 powi 1023" using F' by (intro power_int_increasing) simp_all
      also have "\<dots> < (2::rat) ^ 1024" by simp
      finally show ?thesis unfolding round_to_53_bits_def Let_def e_def[symmetric] .
    next
      case ee: False
      then have e1074: "e = - 1074" unfolding e_def by simp
      have "q < 2 powi (floor_log2 q + 1)" using floor_log2_bounds(2)[OF qpos] .
      also have "\<dots> \<le> 2 powi e" using ee by (intro power_int_increasing) simp_all
      finally have "q / 2 powi e \<le> of_int 1" by (simp add: field_simps)
      then have "round_half_even (q / 2 powi e) \<le> 1" by (rule rhe_le)
      then have "(of_int (round_half_even (q / 2 powi e)) :: rat) \<le> 1"
        by (metis of_int_le_iff of_int_1)
      then have "of_int (round_half_even (q / 2 powi e)) * 2 powi e \<le> 1 * (2::rat) powi e"
        by (intro mult_right_mono) simp_all
      also have "\<dots> \<le> 2 powi 0" unfolding e1074 mult_1 by (intro power_int_increasing) simp_all
      also have "\<dots> < (2::rat) ^ 1024" by simp
      finally show ?thesis unfolding round_to_53_bits_def Let_def e_def[symmetric] .
    qed
  qed
qed

lemma nearest_double_None_iff:
  "nearest_double q = None \<longleftrightarrow> 2 ^ 1024 - 2 ^ 970 \<le> \<bar>q\<bar>"
proof (cases "2 ^ 1024 - 2 ^ 970 \<le> \<bar>q\<bar>")
  case True
  have "q \<noteq> 0" using True by auto
  moreover have "2 ^ 1024 \<le> round_to_53_bits \<bar>q\<bar>" using True by (rule round_to_53_bits_overflow)
  ultimately have "nearest_double q = None" unfolding nearest_double_def Let_def by simp
  then show ?thesis using True by simp
next
  case False
  have "nearest_double q \<noteq> None"
  proof (cases "q = 0")
    case True
    then show ?thesis by (simp add: nearest_double_def)
  next
    case q0: False
    have "round_to_53_bits \<bar>q\<bar> < 2 ^ 1024"
      using q0 False by (intro round_to_53_bits_no_overflow) simp_all
    then show ?thesis unfolding nearest_double_def Let_def using q0 by simp
  qed
  then show ?thesis using False by simp
qed

lemma nearest_double_exact:
  assumes a: "\<bar>a\<bar> < 2 ^ 53" and k: "k \<le> 970"
  shows "nearest_double (of_int a / 2 ^ k) = Some (of_int a / 2 ^ k)"
proof (cases "a = 0")
  case True
  then show ?thesis by (simp add: nearest_double_def)
next
  case False
  let ?q = "(of_int a / 2 ^ k) :: rat"
  have abs_q: "\<bar>?q\<bar> = of_int \<bar>a\<bar> * 2 powi (- int k)"
    by (simp add: power_int_minus field_simps)
  have r: "round_to_53_bits \<bar>?q\<bar> = \<bar>?q\<bar>"
    unfolding abs_q using a False k by (intro round_to_53_bits_exact) simp_all
  have "\<bar>?q\<bar> \<le> of_int \<bar>a\<bar>"
    by (simp add: field_simps mult_le_cancel_left1 abs_mult flip: of_int_abs)
  also have "\<dots> < 2 ^ 53" using a by (metis of_int_less_iff of_int_numeral of_int_power)
  also have "\<dots> < (2::rat) ^ 1024" by simp
  finally have "\<not> 2 ^ 1024 \<le> \<bar>?q\<bar>" by simp
  moreover have "?q \<noteq> 0" using False by simp
  moreover have "sgn ?q * \<bar>?q\<bar> = ?q" by (rule sgn_mult_abs)
  ultimately show ?thesis
    unfolding nearest_double_def Let_def r by simp
qed

lemma digit_char_is_digit: "0 \<le> d \<Longrightarrow> d < 10 \<Longrightarrow> is_digit (digit_char d)"
proof -
  assume "0 \<le> d" "d < 10"
  then have "d = 0 \<or> d = 1 \<or> d = 2 \<or> d = 3 \<or> d = 4 \<or> d = 5 \<or> d = 6 \<or> d = 7 \<or> d = 8 \<or> d = 9"
    by arith
  then show ?thesis
    by (elim disjE) (simp_all add: digit_char_def is_digit_def)
qed

lemma show_int_digits: "0 \<le> n \<Longrightarrow> show_int n \<noteq> [] \<and> (\<forall>c \<in> set (show_int n). is_digit c)"
proof (induction n rule: show_int.induct)
  case (1 n)
  show ?case
  proof (cases "n < 10")
    case True
    then show ?thesis using 1(2) by (subst (1 2) show_int.simps) (simp add: digit_char_is_digit)
  next
    case False
    then have "0 \<le> n div 10" by simp
    with 1(1)[OF False] have ih: "\<forall>c \<in> set (show_int (n div 10)). is_digit c" by simp
    have "is_digit (digit_char (n mod 10))" by (rule digit_char_is_digit) simp_all
    then show ?thesis using False ih by (subst (1 2) show_int.simps) simp
  qed
qed

lemma fmt_2f_shape:
  "\<exists>s d1 d2. fmt_2f x = (if x < 0 then ''-'' else '''') @ s @ [CHR ''.'', d1, d2]
     \<and> s \<noteq> [] \<and> (\<forall>c \<in> set s. is_digit c) \<and> is_digit d1 \<and> is_digit d2"
proof -
  define n where "n = round_half_even (\<bar>x\<bar> * 100)"
  have "of_int 0 \<le> \<bar>x\<bar> * 100" by simp
  then have n0: "0 \<le> n" unfolding n_def by (rule rhe_ge)
  then have "0 \<le> n div 100" by simp
  from show_int_digits[OF this]
  have s: "show_int (n div 100) \<noteq> []" "\<forall>c \<in> set (show_int (n div 100)). is_digit c" by simp_all
  have d1: "is_digit (digit_char (n mod 100 div 10))" by (rule digit_char_is_digit) simp_all
  have d2: "is_digit (digit_char (n mod 10))" by (rule digit_char_is_digit) simp_all
  show ?thesis
    unfolding fmt_2f_def Let_def n_def[symmetric]
    using s d1 d2 by (intro exI[of _ "show_int (n div 100)"] exI[of _ "digit_char (n mod 100 div 10)"]
        exI[of _ "digit_char (n mod 10)"]) simp
qed

lemma fmt_2f_of_int: "fmt_2f (of_int b) = (if b < 0 then ''-'' else '''') @ show_int \<bar>b\<bar> @ ''.00''"
proof -
  have "\<bar>of_int b :: rat\<bar> * 100 = of_int (\<bar>b\<bar> * 100)" by simp
  then have "round_half_even (\<bar>of_int b\<bar> * 100) = \<bar>b\<bar> * 100" by (simp only: rhe_of_int)
  then show ?thesis unfolding fmt_2f_def Let_def by (simp add: digit_char_def)
qed

lemma py_truediv_pow2:
  assumes "\<bar>a\<bar> < 2 ^ 53" and "k \<le> 970"
  shows "py_truediv a (2 ^ k) = Inr (of_int a / 2 ^ k)"
  using nearest_double_exact[OF assms] by (simp add: py_truediv_def)

lemma py_float_of_int_exact:
  assumes "\<bar>a\<bar> < 2 ^ 53"
  shows "py_float_of_int a = Inr (of_int a)"
  using nearest_double_exact[OF assms, of 0] by (simp add: py_float_of_int_def)

lemma size_and_unit_exact:
  assumes "\<bar>b\<bar> < 2 ^ 53"
  shows "size_and_unit b =
     (if b \<ge> 1024 ^ 3 then (Inr (of_int b / 1024 ^ 3), ''GB'')
      else if b \<ge> 1024 ^ 2 then (Inr (of_int b / 1024 ^ 2), ''MB'')
      else if b \<ge> 1024 then (Inr (of_int b / 1024), ''KB'')
      else (Inr (of_int b), ''Bytes''))"
proof -
  have "py_truediv b (1024 ^ 3) = Inr (of_int b / 1024 ^ 3)"
    using py_truediv_pow2[OF assms, of 30] by simp
  moreover have "py_truediv b (1024 ^ 2) = Inr (of_int b / 1024 ^ 2)"
    using py_truediv_pow2[OF assms, of 20] by simp
  moreover have "py_truediv b 1024 = Inr (of_int b / 1024)"
    using py_truediv_pow2[OF assms, of 10] by simp
  ultimately show ?thesis
    unfolding size_and_unit_def using py_float_of_int_exact[OF assms] by simp
qed

lemma rhe_divide_int:
  assumes "0 < d"
  shows "round_half_even (of_int n / of_int d) =
     (if 2 * (n mod d) < d then n div d
      else if d < 2 * (n mod d) then n div d + 1
      else if even (n div d) then n div d else n div d + 1)"
proof -
  have fl: "\<lfloor>(of_int n / of_int d) :: rat\<rfloor> = n div d" by (rule floor_divide_of_int_eq)
  have dpos: "(0::rat) < of_int d" using assms by simp
  have "(of_int n :: rat) = of_int (n div d) * of_int d + of_int (n mod d)"
    by (metis of_int_add of_int_mult div_mult_mod_eq)
  then have r: "(of_int n / of_int d :: rat) - of_int (n div d) = of_int (n mod d) / of_int d"
    using dpos by (simp add: field_simps)
  have lt: "(of_int (n mod d) / of_int d < (1 / 2 :: rat)) = (2 * (n mod d) < d)"
  proof -
    have "(of_int (n mod d) / of_int d < (1 / 2 :: rat)) = ((of_int (2 * (n mod d)) :: rat) < of_int d)"
      using dpos by (simp add: field_simps)
    then show ?thesis by (simp only: of_int_less_iff)
  qed
  have gt: "((1 / 2 :: rat) < of_int (n mod d) / of_int d) = (d < 2 * (n mod d))"
  proof -
    have "((1 / 2 :: rat) < of_int (n mod d) / of_int d) = ((of_int d :: rat) < of_int (2 * (n mod d)))"
      using dpos by (simp add: field_simps)
    then show ?thesis by (simp only: of_int_less_iff)
  qed
  show ?thesis
    unfolding round_half_even_def Let_def fl r lt gt ..
qed

lemma rhe_numeral_div:
  "round_half_even (numeral n / numeral d) =
     (if 2 * (numeral n mod numeral d) < (numeral d :: int) then numeral n div numeral d
      else if (numeral d :: int) < 2 * (numeral n mod numeral d) then numeral n div numeral d + 1
      else if even (numeral n div numeral d :: int) then numeral n div numeral d
      else numeral n div numeral d + 1)"
  using rhe_divide_int[of "numeral d" "numeral n"] by simp

lemma rhe_numeral: "round_half_even (numeral n) = numeral n"
  using rhe_of_int[of "numeral n"] by simp

lemma rhe_zero: "round_half_even 0 = 0"
  using rhe_of_int[of 0] by simp

lemmas fmt_eval = fmt_2f_def Let_def rhe_numeral_div rhe_numeral rhe_zero show_int.simps digit_char_def

lemma round_to_53_bits_in_range:
  assumes "0 < q" and "2 powi E \<le> q" and "q < 2 powi (E + 1)" and "- 1022 \<le> E"
  shows "round_to_53_bits q = of_int (round_half_even (q / 2 powi (E - 52))) * 2 powi (E - 52)"
proof -
  have F: "floor_log2 q = E"
    using floor_log2_less[OF assms(1) assms(3)] floor_log2_ge[OF assms(1) assms(2)] by simp
  have e: "max (floor_log2 q - 52) (- 1074) = E - 52" unfolding F using assms(4) by simp
  show ?thesis unfolding round_to_53_bits_def Let_def e ..
qed

lemma round_to_53_bits_ge_pow2:
  assumes "2 powi K \<le> q" and "- 1022 \<le> K"
  shows "2 powi K \<le> round_to_53_bits q"
proof -
  have qpos: "0 < q" using assms(1) by (smt (verit) zero_less_power_int zero_less_numeral less_le_trans)
  define F where "F = floor_log2 q"
  have KF: "K \<le> F" unfolding F_def by (rule floor_log2_ge[OF qpos assms(1)])
  have e: "max (floor_log2 q - 52) (- 1074) = F - 52" unfolding F_def[symmetric] using KF assms(2) by simp
  have lo: "2 powi F \<le> q" unfolding F_def using floor_log2_bounds(1)[OF qpos] .
  have p: "(0::rat) < 2 powi (F - 52)" by simp
  have "(2::rat) powi F / 2 powi (F - 52) \<le> q / 2 powi (F - 52)"
    using lo p by (simp add: divide_right_mono)
  moreover have "(2::rat) powi F / 2 powi (F - 52) = of_int (2 ^ 52)"
    by (simp add: power_int_diff)
  ultimately have "of_int (2 ^ 52) \<le> q / 2 powi (F - 52)" by simp
  then have "2 ^ 52 \<le> round_half_even (q / 2 powi (F - 52))" by (rule rhe_ge)
  then have "(of_int (2 ^ 52) :: rat) \<le> of_int (round_half_even (q / 2 powi (F - 52)))"
    by (simp only: of_int_le_iff)
  then have "(of_int (2 ^ 52) :: rat) * 2 powi (F - 52)
               \<le> of_int (round_half_even (q / 2 powi (F - 52))) * 2 powi (F - 52)"
    using p by (simp only: mult_le_cancel_right_pos)
  moreover have "(of_int (2 ^ 52) :: rat) * 2 powi (F - 52) = 2 powi F"
    by (simp add: power_int_diff)
  moreover have "(2::rat) powi K \<le> 2 powi F" using KF by (simp add: power_int_increasing)
  ultimately show ?thesis unfolding round_to_53_bits_def Let_def e by linarith
qed

text \<open>
  Claim C9 says that \<open>format_size\<close> returns a rendering for every negative integer. At
  \<open>- (2 ^ 1024)\<close> the comparisons all fail, the last branch is taken, and the conversion
  of the int to a float, which the format specifier \<open>.2f\<close> asks for, raises
  \<open>OverflowError\<close>.
\<close>
theorem format_size_negative_overflow_counterexample:
  "format_size (- (2 ^ 1024)) = Inl OverflowError"
proof -
  have "nearest_double (of_int (- (2 ^ 1024))) = None"
    unfolding nearest_double_None_iff by simp
  then show ?thesis
    by (simp add: format_size_def size_and_unit_def py_float_of_int_def)
qed

lemma nearest_double_int_error:
  assumes "nearest_double (of_int b) = Some v"
  shows "\<bar>v - of_int b\<bar> \<le> \<bar>of_int b\<bar> / 2 ^ 53"
proof (cases "b = 0")
  case True
  then show ?thesis using assms by (simp add: nearest_double_def)
next
  case False
  define q :: rat where "q = \<bar>of_int b\<bar>"
  have q1: "1 \<le> q" using False unfolding q_def
    by (metis abs_ge_zero of_int_abs of_int_1 of_int_le_iff zero_less_abs_iff int_one_le_iff_zero_less)
  then have qpos: "0 < q" by simp
  have "2 powi 0 \<le> q" using q1 by simp
  then have F0: "0 \<le> floor_log2 q" by (rule floor_log2_ge[OF qpos])
  then have e: "max (floor_log2 q - 52) (- 1074) = floor_log2 q - 52" by simp
  have v: "v = sgn (of_int b) * round_to_53_bits q"
    using assms False unfolding nearest_double_def Let_def q_def by (simp split: if_splits)
  have b: "(of_int b :: rat) = sgn (of_int b) * q" unfolding q_def by (simp add: sgn_mult_abs)
  have "\<bar>v - of_int b\<bar> = \<bar>sgn (of_int b :: rat) * (round_to_53_bits q - q)\<bar>"
    unfolding v by (subst (2) b) (simp add: right_diff_distrib)
  also have "\<dots> = \<bar>round_to_53_bits q - q\<bar>"
    using False by (simp add: abs_mult abs_sgn_eq)
  also have "\<dots> \<le> 2 powi (floor_log2 q - 52) / 2"
    using round_to_53_bits_error[OF qpos] unfolding e .
  also have "\<dots> = 2 powi floor_log2 q / 2 ^ 53"
    by (simp add: power_int_diff)
  also have "\<dots> \<le> q / 2 ^ 53"
    using floor_log2_bounds(1)[OF qpos] by (simp add: divide_right_mono)
  finally show ?thesis unfolding q_def .
qed

text \<open>
  Claim C9, amended. For a negative integer \<open>b\<close> every comparison of \<open>format_size\<close> fails
  and the unit is \<open>Bytes\<close>. The function raises \<open>OverflowError\<close> exactly when the
  magnitude is \<open>2 ^ 1024 - 2 ^ 970\<close> or more. Below that it returns the minus sign, the
  magnitude rounded to 53 significant bits, ties to even (the float nearest to \<open>b\<close>, off
  by at most \<open>\<bar>b\<bar> / 2 ^ 53\<close>), with two decimals and the suffix; up to \<open>2 ^ 53\<close> that is
  \<open>b\<close> itself, as in \<open>-5.00 Bytes\<close>.
\<close>
theorem format_size_negative:
  assumes "b < 0"
  shows "snd (size_and_unit b) = ''Bytes''
    \<and> format_size b =
         (if 2 ^ 1024 - 2 ^ 970 \<le> - b then Inl OverflowError
          else Inr (fmt_2f (- round_to_53_bits (of_int (- b))) @ '' Bytes''))
    \<and> (- b < 2 ^ 1024 - 2 ^ 970 \<longrightarrow>
         \<bar>- round_to_53_bits (of_int (- b)) - of_int b\<bar> \<le> \<bar>of_int b :: rat\<bar> / 2 ^ 53)
    \<and> (- b \<le> 2 ^ 53 \<longrightarrow> format_size b = Inr (''-'' @ show_int (- b) @ ''.00 Bytes''))"
proof -
  have su: "size_and_unit b = (py_float_of_int b, ''Bytes'')"
    using assms by (simp add: size_and_unit_def)
  have fs: "format_size b =
      (case nearest_double (of_int b) of None \<Rightarrow> Inl OverflowError
       | Some v \<Rightarrow> Inr (fmt_2f v @ '' Bytes''))"
    by (simp add: format_size_def su py_float_of_int_def split: option.splits)
  have ab: "\<bar>of_int b :: rat\<bar> = of_int (- b)" using assms by simp
  have sg: "sgn (of_int b :: rat) = - 1" using assms by simp
  have thr: "(2 ^ 1024 - 2 ^ 970 \<le> \<bar>of_int b :: rat\<bar>) = (2 ^ 1024 - 2 ^ 970 \<le> - b)"
  proof -
    have "(2 ^ 1024 - 2 ^ 970 :: rat) = of_int (2 ^ 1024 - 2 ^ 970)" by simp
    then show ?thesis unfolding ab by (simp only: of_int_le_iff)
  qed
  have nd: "nearest_double (of_int b) = Some (- round_to_53_bits (of_int (- b)))"
    if "- b < 2 ^ 1024 - 2 ^ 970"
  proof -
    have "nearest_double (of_int b) \<noteq> None"
      unfolding nearest_double_None_iff thr using that by simp
    then show ?thesis using assms
      unfolding nearest_double_def Let_def ab sg by (simp split: if_splits)
  qed
  have c1: "snd (size_and_unit b) = ''Bytes''" by (simp add: su)
  have c2: "format_size b =
         (if 2 ^ 1024 - 2 ^ 970 \<le> - b then Inl OverflowError
          else Inr (fmt_2f (- round_to_53_bits (of_int (- b))) @ '' Bytes''))"
  proof (cases "2 ^ 1024 - 2 ^ 970 \<le> - b")
    case True
    then have "nearest_double (of_int b) = None"
      unfolding nearest_double_None_iff thr .
    then show ?thesis using True by (simp add: fs)
  next
    case False
    then show ?thesis using nd by (simp add: fs)
  qed
  have c3: "\<bar>- round_to_53_bits (of_int (- b)) - of_int b\<bar> \<le> \<bar>of_int b :: rat\<bar> / 2 ^ 53"
    if "- b < 2 ^ 1024 - 2 ^ 970"
    using nearest_double_int_error[OF nd[OF that]] .
  have c4: "format_size b = Inr (''-'' @ show_int (- b) @ ''.00 Bytes'')" if "- b \<le> 2 ^ 53"
  proof (cases "- b < 2 ^ 53")
    case True
    then have "\<bar>b\<bar> < 2 ^ 53" using assms by simp
    from nearest_double_exact[OF this, of 0]
    have "nearest_double (of_int b) = Some (of_int b)" by simp
    then show ?thesis using assms by (simp add: fs fmt_2f_of_int)
  next
    case False
    then have b: "b = - (2 ^ 53)" using that by simp
    have "round_to_53_bits (2 ^ 53) = of_int (round_half_even (2 ^ 53 / 2 powi (53 - 52))) * 2 powi (53 - 52)"
      by (rule round_to_53_bits_in_range) (simp_all add: power_int_def)
    moreover have "(2 ^ 53 :: rat) / 2 powi (53 - 52) = of_int (2 ^ 52)" by simp
    ultimately have r: "round_to_53_bits (2 ^ 53) = 2 ^ 53"
      by (simp only: rhe_of_int) simp
    have "nearest_double (of_int b) = Some (of_int b)"
      unfolding b nearest_double_def Let_def using r by simp
    then show ?thesis using assms by (simp add: fs fmt_2f_of_int)
  qed
  show ?thesis using c1 c2 c3 c4 by (intro conjI impI)
qed

theorem format_size_negative_witness:
  "(- 5 :: int) < 0 \<and> format_size (- 5) = Inr ''-5.00 Bytes''
   \<and> (- (2 ^ 53 + 1) :: int) < 0
   \<and> format_size (- (2 ^ 53 + 1)) = Inr ''-9007199254740992.00 Bytes''
   \<and> (- (2 ^ 1024) :: int) < 0 \<and> format_size (- (2 ^ 1024)) = Inl OverflowError"
proof -
  have a: "format_size (- 5) = Inr ''-5.00 Bytes''"
  proof -
    have "(- 5 :: int) < 0" by simp
    from format_size_negative[OF this]
    have "- (- 5 :: int) \<le> 2 ^ 53 \<longrightarrow> format_size (- 5) = Inr (''-'' @ show_int (- (- 5)) @ ''.00 Bytes'')"
      by blast
    then show ?thesis by (simp add: show_int.simps digit_char_def)
  qed
  have b: "format_size (- (2 ^ 53 + 1)) = Inr ''-9007199254740992.00 Bytes''"
  proof -
    have "round_to_53_bits (2 ^ 53 + 1)
            = of_int (round_half_even ((2 ^ 53 + 1) / 2 powi (53 - 52))) * 2 powi (53 - 52)"
      by (rule round_to_53_bits_in_range) (simp_all add: power_int_def)
    moreover have "((2 ^ 53 + 1) :: rat) / 2 powi (53 - 52) = 9007199254740993 / 2" by simp
    moreover have "round_half_even (9007199254740993 / 2) = 4503599627370496"
      by (simp add: rhe_numeral_div)
    ultimately have r: "round_to_53_bits (2 ^ 53 + 1) = 9007199254740992" by simp
    have "(- (2 ^ 53 + 1) :: int) < 0" by simp
    from format_size_negative[OF this]
    have "format_size (- (2 ^ 53 + 1)) =
         (if 2 ^ 1024 - 2 ^ 970 \<le> - (- (2 ^ 53 + 1) :: int) then Inl OverflowError
          else Inr (fmt_2f (- round_to_53_bits (of_int (- (- (2 ^ 53 + 1)))) ) @ '' Bytes''))"
      by blast
    moreover have "\<not> (2 ^ 1024 - 2 ^ 970 \<le> - (- (2 ^ 53 + 1) :: int))" by simp
    moreover have "round_to_53_bits (of_int (- (- (2 ^ 53 + 1)))) = 9007199254740992"
      using r by simp
    moreover have "fmt_2f (- 9007199254740992) = ''-9007199254740992.00''"
      by (simp add: fmt_eval)
    ultimately show ?thesis by (simp del: of_int_minus)
  qed
  have c: "format_size (- (2 ^ 1024)) = Inl OverflowError"
  proof -
    have "(- (2 ^ 1024) :: int) < 0" by simp
    from format_size_negative[OF this]
    have "format_size (- (2 ^ 1024)) =
         (if 2 ^ 1024 - 2 ^ 970 \<le> - (- (2 ^ 1024) :: int) then Inl OverflowError
          else Inr (fmt_2f (- round_to_53_bits (of_int (- (- (2 ^ 1024))))) @ '' Bytes''))"
      by blast
    then show ?thesis by simp
  qed
  show ?thesis using a b c by simp
qed

text \<open>
  Claim C4 says that the magnitude in the selected unit is always below 1024. At
  \<open>1024 ^ 4\<close> bytes (1 TiB) the first comparison holds, the unit is \<open>GB\<close>, and the
  magnitude is 1024: there is no unit above \<open>GB\<close>.
\<close>
theorem format_size_unit_counterexample:
  "format_size (1024 ^ 4) = Inr ''1024.00 GB''
   \<and> snd (size_and_unit (1024 ^ 4)) = ''GB''
   \<and> \<not> (of_int (1024 ^ 4) / of_int (1024 ^ 3) < (1024 :: rat))"
  by (simp add: format_size_def size_and_unit_exact fmt_eval)

text \<open>
  Claim C4, amended. For a non-negative \<open>b\<close> below \<open>1024 ^ 4\<close>, \<open>format_size\<close> selects one
  of the four units, \<open>Bytes\<close> when \<open>b < 1024\<close> and otherwise the one in which the magnitude
  \<open>b / scale\<close> is at least 1 and below 1024, and returns that magnitude rounded to two
  decimals (digits, a point, two digits), a space and the unit. From \<open>1024 ^ 4\<close> on the
  unit is \<open>GB\<close> and the magnitude \<open>b / 1024 ^ 3\<close> is 1024 or more; \<open>format_size\<close> returns
  the magnitude rounded to 53 significant bits (the magnitude itself when \<open>b < 2 ^ 53\<close>),
  which is 1024 or more too, with two decimals and the suffix \<open>GB\<close>, and raises
  \<open>OverflowError\<close> exactly when the magnitude is \<open>2 ^ 1024 - 2 ^ 970\<close> or more.
\<close>
theorem format_size_unit_selection:
  assumes "0 \<le> b"
  shows "(b < 1024 ^ 4 \<longrightarrow>
           (\<exists>(u, sc) \<in> set units.
              format_size b = Inr (fmt_2f (of_int b / of_int sc) @ '' '' @ u)
              \<and> (if b < 1024 then u = ''Bytes''
                  else 1 \<le> (of_int b / of_int sc :: rat) \<and> (of_int b / of_int sc :: rat) < 1024)
              \<and> (\<exists>s d1 d2. fmt_2f (of_int b / of_int sc) = s @ [CHR ''.'', d1, d2]
                    \<and> s \<noteq> [] \<and> list_all is_digit s \<and> is_digit d1 \<and> is_digit d2)))
       \<and> (1024 ^ 4 \<le> b \<longrightarrow>
            snd (size_and_unit b) = ''GB'' \<and> (1024 :: rat) \<le> of_int b / of_int (1024 ^ 3)
            \<and> format_size b =
                (if (2 ^ 1024 - 2 ^ 970 :: rat) \<le> of_int b / of_int (1024 ^ 3) then Inl OverflowError
                 else Inr (fmt_2f (round_to_53_bits (of_int b / of_int (1024 ^ 3))) @ '' GB''))
            \<and> 1024 \<le> round_to_53_bits (of_int b / of_int (1024 ^ 3))
            \<and> (\<exists>s d1 d2. fmt_2f (round_to_53_bits (of_int b / of_int (1024 ^ 3))) = s @ [CHR ''.'', d1, d2]
                    \<and> s \<noteq> [] \<and> list_all is_digit s \<and> is_digit d1 \<and> is_digit d2)
            \<and> (b < 2 ^ 53 \<longrightarrow> format_size b = Inr (fmt_2f (of_int b / of_int (1024 ^ 3)) @ '' GB'')))"
proof (intro conjI impI)
  assume big: "1024 ^ 4 \<le> b"
  define q :: rat where "q = of_int b / of_int (1024 ^ 3)"
  show g: "snd (size_and_unit b) = ''GB''" using big by (simp add: size_and_unit_def)
  have "(of_int (1024 ^ 4) :: rat) \<le> of_int b" using big by (simp only: of_int_le_iff)
  then have q1024: "(1024 :: rat) \<le> q" unfolding q_def by simp
  then show "(1024 :: rat) \<le> of_int b / of_int (1024 ^ 3)" unfolding q_def .
  have qpos: "0 < q" using q1024 by simp
  have su: "size_and_unit b = (py_truediv b (1024 ^ 3), ''GB'')"
    using big by (simp add: size_and_unit_def)
  have fs: "format_size b =
      (case nearest_double q of None \<Rightarrow> Inl OverflowError | Some v \<Rightarrow> Inr (fmt_2f v @ '' GB''))"
    unfolding format_size_def su py_truediv_def q_def by (simp split: option.splits)
  have nd: "nearest_double q = (if 2 ^ 1024 - 2 ^ 970 \<le> q then None else Some (round_to_53_bits q))"
  proof (cases "2 ^ 1024 - 2 ^ 970 \<le> q")
    case True
    then have "nearest_double q = None" unfolding nearest_double_None_iff using qpos by simp
    then show ?thesis using True by simp
  next
    case False
    then have "nearest_double q \<noteq> None" unfolding nearest_double_None_iff using qpos by simp
    then show ?thesis using False qpos unfolding nearest_double_def Let_def
      by (simp split: if_splits)
  qed
  show "format_size b =
          (if (2 ^ 1024 - 2 ^ 970 :: rat) \<le> of_int b / of_int (1024 ^ 3) then Inl OverflowError
           else Inr (fmt_2f (round_to_53_bits (of_int b / of_int (1024 ^ 3))) @ '' GB''))"
    unfolding q_def[symmetric] fs nd by simp
  have "2 powi 10 \<le> q" using q1024 by simp
  then have "2 powi 10 \<le> round_to_53_bits q" by (rule round_to_53_bits_ge_pow2) simp
  then have r1024: "1024 \<le> round_to_53_bits q" by simp
  then show "1024 \<le> round_to_53_bits (of_int b / of_int (1024 ^ 3))" unfolding q_def .
  have "\<not> round_to_53_bits q < 0" using r1024 by simp
  then have "\<exists>s d1 d2. fmt_2f (round_to_53_bits q) = s @ [CHR ''.'', d1, d2]
                    \<and> s \<noteq> [] \<and> list_all is_digit s \<and> is_digit d1 \<and> is_digit d2"
    using fmt_2f_shape[of "round_to_53_bits q"] by (simp add: list_all_iff)
  then show "\<exists>s d1 d2. fmt_2f (round_to_53_bits (of_int b / of_int (1024 ^ 3))) = s @ [CHR ''.'', d1, d2]
                    \<and> s \<noteq> [] \<and> list_all is_digit s \<and> is_digit d1 \<and> is_digit d2"
    unfolding q_def .
  assume "b < 2 ^ 53"
  then have ex: "\<bar>b\<bar> < 2 ^ 53" using assms by simp
  show "format_size b = Inr (fmt_2f (of_int b / of_int (1024 ^ 3)) @ '' GB'')"
    using big by (simp add: format_size_def size_and_unit_exact[OF ex])
next
  assume small: "b < 1024 ^ 4"
  then have ex: "\<bar>b\<bar> < 2 ^ 53" using assms by simp
  have shape: "\<exists>s d1 d2. fmt_2f (of_int b / of_int sc) = s @ [CHR ''.'', d1, d2]
       \<and> s \<noteq> [] \<and> list_all is_digit s \<and> is_digit d1 \<and> is_digit d2" if "0 < sc" for sc
  proof -
    have "\<not> (of_int b / of_int sc :: rat) < 0" using assms that by (simp add: divide_less_0_iff)
    then show ?thesis using fmt_2f_shape[of "of_int b / of_int sc"]
      by (simp add: list_all_iff)
  qed
  consider "1024 ^ 3 \<le> b" | "1024 ^ 2 \<le> b" "b < 1024 ^ 3" | "1024 \<le> b" "b < 1024 ^ 2" | "b < 1024"
    by linarith
  then show "\<exists>(u, sc) \<in> set units.
              format_size b = Inr (fmt_2f (of_int b / of_int sc) @ '' '' @ u)
              \<and> (if b < 1024 then u = ''Bytes''
                  else 1 \<le> (of_int b / of_int sc :: rat) \<and> (of_int b / of_int sc :: rat) < 1024)
              \<and> (\<exists>s d1 d2. fmt_2f (of_int b / of_int sc) = s @ [CHR ''.'', d1, d2]
                    \<and> s \<noteq> [] \<and> list_all is_digit s \<and> is_digit d1 \<and> is_digit d2)"
  proof cases
    case 1
    have "(of_int (1024 ^ 3) :: rat) \<le> of_int b" "(of_int b :: rat) < of_int (1024 ^ 4)"
      using 1 small by (simp_all only: of_int_le_iff of_int_less_iff)
    then show ?thesis using 1 shape[of "1024 ^ 3"]
      by (intro bexI[of _ "(''GB'', 1024 ^ 3)"])
         (simp_all add: units_def format_size_def size_and_unit_exact[OF ex])
  next
    case 2
    have "(of_int (1024 ^ 2) :: rat) \<le> of_int b" "(of_int b :: rat) < of_int (1024 ^ 3)"
      using 2 by (simp_all only: of_int_le_iff of_int_less_iff)
    then show ?thesis using 2 shape[of "1024 ^ 2"]
      by (intro bexI[of _ "(''MB'', 1024 ^ 2)"])
         (simp_all add: units_def format_size_def size_and_unit_exact[OF ex])
  next
    case 3
    have "(of_int 1024 :: rat) \<le> of_int b" "(of_int b :: rat) < of_int (1024 ^ 2)"
      using 3 by (simp_all only: of_int_le_iff of_int_less_iff)
    then show ?thesis using 3 shape[of "1024"]
      by (intro bexI[of _ "(''KB'', 1024)"])
         (simp_all add: units_def format_size_def size_and_unit_exact[OF ex])
  next
    case 4
    then show ?thesis using shape[of 1]
      by (intro bexI[of _ "(''Bytes'', 1)"])
         (simp_all add: units_def format_size_def size_and_unit_exact[OF ex])
  qed
qed

theorem format_size_unit_selection_witness:
  "(0 :: int) \<le> 1536 \<and> (1536 :: int) < 1024 ^ 4 \<and> format_size 1536 = Inr ''1.50 KB''
   \<and> (1024 :: int) ^ 4 \<le> 2 ^ 41 \<and> (2 :: int) ^ 41 < 2 ^ 53 \<and> format_size (2 ^ 41) = Inr ''2048.00 GB''
   \<and> (1024 :: int) ^ 4 \<le> 2 ^ 94 + 2 ^ 40 \<and> format_size (2 ^ 94 + 2 ^ 40) = Inr ''18446744073709551616.00 GB''"
proof -
  have "format_size 1536 = Inr (fmt_2f (3 / 2) @ '' KB'')"
    using format_size_unit_selection[of 1536] by (simp add: units_def)
  moreover have "fmt_2f (3 / 2) = ''1.50''"
    by (simp add: fmt_eval)
  moreover have "format_size (2 ^ 41) = Inr ''2048.00 GB''"
  proof -
    have "(0::int) \<le> 2 ^ 41" by simp
    from format_size_unit_selection[OF this]
    have "1024 ^ 4 \<le> (2 ^ 41 :: int) \<longrightarrow> (2 ^ 41 :: int) < 2 ^ 53 \<longrightarrow>
          format_size (2 ^ 41) = Inr (fmt_2f (of_int (2 ^ 41) / of_int (1024 ^ 3)) @ '' GB'')"
      by blast
    then have "format_size (2 ^ 41) = Inr (fmt_2f (of_int (2 ^ 41) / of_int (1024 ^ 3)) @ '' GB'')"
      by simp
    moreover have "fmt_2f (of_int (2 ^ 41) / of_int (1024 ^ 3)) = ''2048.00''"
      by (simp add: fmt_eval)
    ultimately show ?thesis by simp
  qed
  moreover have "format_size (2 ^ 94 + 2 ^ 40) = Inr ''18446744073709551616.00 GB''"
  proof -
    define q :: rat where "q = of_int (2 ^ 94 + 2 ^ 40) / of_int (1024 ^ 3)"
    have qv: "q = 2 ^ 64 + 2 ^ 10" unfolding q_def by simp
    have "(0::int) \<le> 2 ^ 94 + 2 ^ 40" by simp
    from format_size_unit_selection[OF this]
    have "1024 ^ 4 \<le> (2 ^ 94 + 2 ^ 40 :: int) \<longrightarrow> format_size (2 ^ 94 + 2 ^ 40) =
           (if (2 ^ 1024 - 2 ^ 970 :: rat) \<le> of_int (2 ^ 94 + 2 ^ 40) / of_int (1024 ^ 3) then Inl OverflowError
            else Inr (fmt_2f (round_to_53_bits (of_int (2 ^ 94 + 2 ^ 40) / of_int (1024 ^ 3))) @ '' GB''))"
      by blast
    moreover have "1024 ^ 4 \<le> (2 ^ 94 + 2 ^ 40 :: int)" by simp
    ultimately have "format_size (2 ^ 94 + 2 ^ 40) =
           (if (2 ^ 1024 - 2 ^ 970 :: rat) \<le> q then Inl OverflowError
            else Inr (fmt_2f (round_to_53_bits q) @ '' GB''))"
      unfolding q_def by blast
    moreover have "\<not> (2 ^ 1024 - 2 ^ 970 :: rat) \<le> q" unfolding qv by simp
    moreover have "round_to_53_bits q = 2 ^ 64"
    proof -
      have "round_to_53_bits q = of_int (round_half_even (q / 2 powi (64 - 52))) * 2 powi (64 - 52)"
        by (rule round_to_53_bits_in_range) (simp_all add: qv power_int_def)
      moreover have "q / 2 powi (64 - 52) = 18014398509481985 / 4" unfolding qv by simp
      moreover have "round_half_even (18014398509481985 / 4) = 4503599627370496"
        by (simp add: rhe_numeral_div)
      ultimately show ?thesis by simp
    qed
    moreover have "fmt_2f (2 ^ 64) = ''18446744073709551616.00''"
      by (simp add: fmt_eval)
    ultimately show ?thesis by simp
  qed
  ultimately show ?thesis by simp
qed

section \<open>The history log and its parser\<close>

text \<open>
  Claim C7. When the history file does not exist, \<open>plot_usage\<close> raises nothing, shows no
  chart (no record reaches the charting library), leaves the host as it is, and writes
  exactly one line: the notice \<open>No data to display.\<close> when matplotlib is there, the
  notice that matplotlib is missing otherwise.
\<close>
theorem plot_usage_no_file:
  assumes "files (host w) history_filename = None"
  shows "snd (plot_usage env w) = None
    \<and> charts (fst (plot_usage env w)) = charts w
    \<and> host (fst (plot_usage env w)) = host w
    \<and> calls (fst (plot_usage env w)) = calls w
    \<and> length (stdout (fst (plot_usage env w))) = length (stdout w) + 1
    \<and> (HAS_MATPLOTLIB env \<longrightarrow>
         stdout (fst (plot_usage env w)) = stdout w @ [WARNING @ ''No data to display.'' @ ENDC @ [nl]])"
  using assms by (simp add: plot_usage_def print_def)

theorem plot_usage_no_file_witness:
  "files (host (example_world (\<lambda>t. False))) history_filename = None
   \<and> HAS_MATPLOTLIB (example_env\<lparr>HAS_MATPLOTLIB := True\<rparr>)
   \<and> plot_usage (example_env\<lparr>HAS_MATPLOTLIB := True\<rparr>) (example_world (\<lambda>t. False))
       = ((example_world (\<lambda>t. False))\<lparr>stdout := [WARNING @ ''No data to display.'' @ ENDC @ [nl]]\<rparr>, None)"
proof -
  have f: "files (host (example_world (\<lambda>t. False))) history_filename = None"
    by (simp add: example_world_def)
  have h: "HAS_MATPLOTLIB (example_env\<lparr>HAS_MATPLOTLIB := True\<rparr>)" by simp
  from plot_usage_no_file[OF f, of "example_env\<lparr>HAS_MATPLOTLIB := True\<rparr>"] h
  have "stdout (fst (plot_usage (example_env\<lparr>HAS_MATPLOTLIB := True\<rparr>) (example_world (\<lambda>t. False))))
        = [WARNING @ ''No data to display.'' @ ENDC @ [nl]]"
    by (simp add: example_world_def)
  then show ?thesis using f
    by (simp add: plot_usage_def print_def example_world_def)
qed

section \<open>Standard output only grows\<close>

lemma stdout_print: "stdout (print s w) = stdout w @ [s @ [nl]]"
  by (simp add: print_def)

lemma stdout_prints: "stdout (prints ss w) = stdout w @ map (\<lambda>s. s @ [nl]) ss"
  unfolding prints_def by (induction ss arbitrary: w) (simp_all add: stdout_print)

lemma stdout_write_prompt: "stdout (write_prompt s w) = stdout w @ [s]"
  by (simp add: write_prompt_def)

lemma stdout_print_separator:
  "stdout (print_separator title w) = stdout w @
     [HEADER @ [nl] @ replicate (length title) CHR ''='' @ [nl],
      BOLD @ title @ ENDC @ [nl],
      HEADER @ replicate (length title) CHR ''='' @ ENDC @ [nl]]"
  by (simp add: print_separator_def stdout_prints)

lemma stdout_show_main_menu:
  "stdout (show_main_menu w) = stdout w @ stdout (show_main_menu (w\<lparr>stdout := []\<rparr>))"
  by (simp add: show_main_menu_def stdout_write_prompt stdout_prints stdout_print_separator)

lemma grows_print: "prefix (stdout w) (stdout (print s w))"
  by (simp add: stdout_print)

lemma grows_prints: "prefix (stdout w) (stdout (prints ss w))"
  by (simp add: stdout_prints)

lemma grows_print_separator: "prefix (stdout w) (stdout (print_separator t w))"
  by (simp add: stdout_print_separator)

lemma grows_show_main_menu: "prefix (stdout w) (stdout (show_main_menu w))"
  by (subst stdout_show_main_menu) simp

lemma grows_call: "prefix (stdout w) (stdout (fst (snd (call env t ins w))))"
  by (simp add: call_def split: effect.splits)

lemma grows_save_history: "prefix (stdout w) (stdout (fst (save_history env d f w)))"
  by (simp add: save_history_def Let_def stdout_print split: option.splits prod.splits)

lemma grows_check_disk: "prefix (stdout w) (stdout (fst (check_disk env d w)))"
  by (auto simp add: check_disk_def Let_def stdout_print stdout_print_separator
      split: sum.splits prod.splits)

lemma grows_check_all: "prefix (stdout w) (stdout (fst (check_all env ds u w)))"
proof (induction ds arbitrary: u w)
  case Nil
  then show ?case by simp
next
  case (Cons d ds)
  show ?case
  proof (cases "check_disk env d w")
    case (Pair w' r)
    have 1: "prefix (stdout w) (stdout w')" using grows_check_disk[of w env d] Pair by simp
    show ?thesis
    proof (cases r)
      case (Inl e)
      then show ?thesis using Pair 1 by simp
    next
      case (Inr usage)
      then show ?thesis using Pair 1 Cons.IH[of w' "dict_set d usage u"]
        by (auto intro: prefix_order.trans)
    qed
  qed
qed

lemma grows_check_disks: "prefix (stdout w) (stdout (fst (check_disks env w)))"
proof (cases "check_all env (get_disks env (host w)) [] w")
  case (Pair w' r)
  have 1: "prefix (stdout w) (stdout w')" using grows_check_all[of w env "get_disks env (host w)" "[]"] Pair by simp
  show ?thesis
  proof (cases r)
    case (Inl e)
    then show ?thesis using Pair 1 by (simp add: check_disks_def)
  next
    case (Inr d)
    then show ?thesis using Pair 1 grows_save_history[of w' env d history_filename]
      by (auto simp add: check_disks_def intro: prefix_order.trans)
  qed
qed

lemma grows_plot_usage: "prefix (stdout w) (stdout (fst (plot_usage env w)))"
  by (simp add: plot_usage_def stdout_print split: option.splits prod.splits)

lemma grows_monitor_memory: "prefix (stdout w) (stdout (fst (snd (monitor_memory env ins w))))"
  by (simp add: monitor_memory_def grows_call stdout_print)

lemma grows_monitor_cpu: "prefix (stdout w) (stdout (fst (snd (monitor_cpu env ins w))))"
  by (simp add: monitor_cpu_def grows_call stdout_print)

lemma grows_live_monitoring: "prefix (stdout w) (stdout (fst (snd (live_monitoring env ins w))))"
  by (simp add: live_monitoring_def grows_call stdout_print)

lemma grows_list_processes: "prefix (stdout w) (stdout (fst (snd (list_processes env ins w))))"
  using grows_call[of "print_separator ''System Processes'' w" env ProcessListing ins]
    grows_print_separator[of w "''System Processes''"]
  by (auto simp add: list_processes_def stdout_print intro: prefix_order.trans)

lemma grows_run_tasks: "prefix (stdout w) (stdout (fst (snd (run_tasks env ts ins w))))"
proof (induction ts arbitrary: ins w)
  case Nil
  then show ?case by simp
next
  case (Cons p ts)
  obtain task_name task_func where p: "p = (task_name, task_func)" by (cases p)
  define w0 where "w0 = print ([nl] @ OKCYAN @ ''>>> '' @ task_name @ ''...'' @ ENDC) w"
  obtain n w1 r where c: "call env task_func ins w0 = (n, w1, r)" by (cases "call env task_func ins w0") auto
  have 1: "prefix (stdout w) (stdout w1)"
    using grows_call[of w0 env task_func ins] c grows_print[of w] unfolding w0_def
    by (auto intro: prefix_order.trans)
  show ?case
  proof (cases "case r of None \<Rightarrow> False | Some e \<Rightarrow> \<not> is_Exception e")
    case True
    then show ?thesis using 1 c by (simp add: p w0_def)
  next
    case False
    define w2 where "w2 = (case r of None \<Rightarrow> w1
       | Some e \<Rightarrow> print (FAIL @ ''Error during '' @ task_name @ '': '' @ exn_str e @ ENDC) w1)"
    define w3 where "w3 = w2\<lparr>slept := slept w2 + 1\<rparr>"
    have 2: "prefix (stdout w1) (stdout w3)"
      unfolding w3_def w2_def by (simp add: stdout_print split: option.splits)
    obtain m w4 r' where rt: "run_tasks env ts (drop n ins) w3 = (m, w4, r')"
      by (cases "run_tasks env ts (drop n ins) w3") auto
    have 3: "prefix (stdout w3) (stdout w4)" using Cons.IH[of w3 "drop n ins"] rt by simp
    have "fst (snd (run_tasks env (p # ts) ins w)) = w4"
      using False c rt by (simp add: p w0_def w2_def w3_def Let_def)
    then show ?thesis using 1 2 3 by (auto intro: prefix_order.trans)
  qed
qed

lemma grows_run_all: "prefix (stdout w) (stdout (fst (snd (run_all_optimizations env ins w))))"
proof -
  define w0 where "w0 = print (HEADER @ ''Running all Windows optimizations...'' @ ENDC) w"
  obtain n w1 r where rt: "run_tasks env optimizations ins w0 = (n, w1, r)"
    by (cases "run_tasks env optimizations ins w0") auto
  have "prefix (stdout w) (stdout w1)"
    using grows_run_tasks[of w0 env optimizations ins] rt grows_print[of w] unfolding w0_def
    by (auto intro: prefix_order.trans)
  then show ?thesis using rt
    by (cases r) (auto simp add: run_all_optimizations_def w0_def stdout_print intro: prefix_order.trans)
qed

lemma grows_optimization_dispatch:
  "prefix (stdout w) (stdout (fst (snd (optimization_dispatch env c ins w))))"
  by (simp add: optimization_dispatch_def grows_call grows_run_all stdout_print)

lemma grows_optimization_loop:
  "prefix (stdout w) (stdout (fst (snd (optimization_loop env ins w))))"
proof (induction env ins w rule: optimization_loop.induct)
  case (1 env w)
  then show ?case by (simp add: stdout_write_prompt stdout_prints)
next
  case (2 env choice rest w)
  define w1 where "w1 = write_prompt ''Select optimization task: '' (prints optimization_menu w)"
  have 0: "prefix (stdout w) (stdout w1)" unfolding w1_def by (simp add: stdout_write_prompt stdout_prints)
  show ?case
  proof (cases "choice = ''0''")
    case True
    then show ?thesis using 0 by (simp add: w1_def)
  next
    case False
    obtain n w2 r where d: "optimization_dispatch env choice rest w1 = (n, w2, r)"
      by (cases "optimization_dispatch env choice rest w1") auto
    have 1: "prefix (stdout w1) (stdout w2)"
      using grows_optimization_dispatch[of w1 env choice rest] d by simp
    show ?thesis
    proof (cases r)
      case (Some e)
      then show ?thesis using False d 0 1 by (auto simp add: w1_def[symmetric] intro: prefix_order.trans)
    next
      case None
      obtain m w3 r' where l: "optimization_loop env (drop n rest) w2 = (m, w3, r')"
        by (cases "optimization_loop env (drop n rest) w2") auto
      have "prefix (stdout w2) (stdout w3)"
        using "2.IH"[of w1 n "(w2, r)" w2 r] w1_def False d None l by simp
      then show ?thesis using False d None l 0 1
        by (auto simp add: w1_def[symmetric] intro: prefix_order.trans)
    qed
  qed
qed

lemma grows_windows_optimization:
  "prefix (stdout w) (stdout (fst (snd (windows_optimization env ins w))))"
  using grows_optimization_loop[of "print_separator ''Windows System Optimization'' w" env ins]
    grows_print_separator[of w "''Windows System Optimization''"]
  by (auto simp add: windows_optimization_def stdout_print intro: prefix_order.trans)

lemma grows_main_dispatch:
  "prefix (stdout w) (stdout (fst (snd (fst (main_dispatch env c ins w)))))"
  using grows_check_disks[of w env] grows_plot_usage[of w env]
  by (simp add: main_dispatch_def grows_monitor_memory grows_monitor_cpu grows_list_processes
      grows_call grows_windows_optimization grows_live_monitoring stdout_print split: prod.splits)


lemma grows_main:
  "prefix (stdout (show_main_menu w)) (stdout (fst (snd (main env ins w))))"
proof (induction env ins w rule: main.induct)
  case (1 env w)
  then show ?case by simp
next
  case (2 env choice rest w)
  define w1 where "w1 = show_main_menu w"
  obtain n w2 r c where d: "main_dispatch env choice rest w1 = ((n, w2, r), c)"
    by (cases "main_dispatch env choice rest w1") auto
  have 1: "prefix (stdout w1) (stdout w2)"
    using grows_main_dispatch[of w1 env choice rest] d by simp
  show ?case
  proof (cases r)
    case (Some e)
    then show ?thesis using d 1 by (simp add: w1_def[symmetric])
  next
    case None
    show ?thesis
    proof (cases c)
      case Break
      then show ?thesis using d None 1 by (simp add: w1_def[symmetric])
    next
      case Continue
      obtain m w3 r' where l: "main env (drop n rest) w2 = (m, w3, r')"
        by (cases "main env (drop n rest) w2") auto
      have "prefix (stdout (show_main_menu w2)) (stdout w3)"
        using "2.IH"[of "(n, w2, r)" c n "(w2, r)" w2 r] w1_def d None Continue l by simp
      then have "prefix (stdout w2) (stdout w3)"
        using grows_show_main_menu[of w2] by (auto intro: prefix_order.trans)
      then show ?thesis using d None Continue l 1
        by (auto simp add: w1_def[symmetric] intro: prefix_order.trans)
    qed
  qed
qed

section \<open>The main menu\<close>

text \<open>
  Claim C8. Without psutil, the menu items 2 (memory monitoring), 3 (CPU monitoring) and
  5 (process listing) each write their notice and nothing else happens: no input line
  beyond the choice is read, no external action runs, and the loop of \<open>main\<close> goes on
  with the next line. The same holds for item 4 (usage graphs) without matplotlib, and
  for item 9 when either library is missing.
\<close>
theorem missing_dependency_is_reported:
  "(\<not> psutil env \<longrightarrow>
       main env (''2'' # rest) w =
         (case main env rest (print (FAIL @ ''psutil is not installed. Memory monitoring is unavailable.'' @ ENDC)
                                (show_main_menu w)) of (m, w', r) \<Rightarrow> (1 + m, w', r))
     \<and> main env (''3'' # rest) w =
         (case main env rest (print (FAIL @ ''psutil is not installed, CPU is unavailable.'' @ ENDC)
                                (show_main_menu w)) of (m, w', r) \<Rightarrow> (1 + m, w', r))
     \<and> main env (''5'' # rest) w =
         (case main env rest (print (FAIL @ ''psutil is not installed. Unable to get processes.'' @ ENDC)
                                (show_main_menu w)) of (m, w', r) \<Rightarrow> (1 + m, w', r)))
   \<and> (\<not> HAS_MATPLOTLIB env \<longrightarrow>
       main env (''4'' # rest) w =
         (case main env rest (print (FAIL @ ''Error: matplotlib is not installed. Install with ''
                                      @ [CHR 0x27] @ ''pip install matplotlib'' @ [CHR 0x27] @ ''.'' @ ENDC)
                                (show_main_menu w)) of (m, w', r) \<Rightarrow> (1 + m, w', r)))
   \<and> (\<not> psutil env \<or> \<not> HAS_MATPLOTLIB env \<longrightarrow>
       main env (''9'' # rest) w =
         (case main env rest (print (FAIL @ ''psutil and matplotlib are required.'' @ ENDC)
                                (show_main_menu w)) of (m, w', r) \<Rightarrow> (1 + m, w', r)))"
  by (simp add: main_dispatch_def monitor_memory_def monitor_cpu_def list_processes_def
      live_monitoring_def plot_usage_def split: prod.splits)

theorem missing_dependency_is_reported_witness:
  "\<not> psutil example_env \<and> \<not> HAS_MATPLOTLIB example_env
   \<and> main example_env [''2'', ''4'', ''10''] (example_world (\<lambda>t. False)) =
       (3, print ''Exiting...''
            (show_main_menu
              (print (FAIL @ ''Error: matplotlib is not installed. Install with ''
                      @ [CHR 0x27] @ ''pip install matplotlib'' @ [CHR 0x27] @ ''.'' @ ENDC)
                (show_main_menu
                  (print (FAIL @ ''psutil is not installed. Memory monitoring is unavailable.'' @ ENDC)
                    (show_main_menu (example_world (\<lambda>t. False))))))), None)"
proof -
  have p: "\<not> psutil example_env" and m: "\<not> HAS_MATPLOTLIB example_env"
    by (simp_all add: example_env_def)
  have x: "main env (''10'' # rest) w = (1, print ''Exiting...'' (show_main_menu w), None)"
    for env :: "(task \<Rightarrow> bool) env" and rest w
    by (simp add: main_dispatch_def)
  define w0 where "w0 = example_world (\<lambda>t. False)"
  define w1 where "w1 = print (FAIL @ ''psutil is not installed. Memory monitoring is unavailable.'' @ ENDC)
           (show_main_menu w0)"
  define w2 where "w2 = print (FAIL @ ''Error: matplotlib is not installed. Install with ''
                      @ [CHR 0x27] @ ''pip install matplotlib'' @ [CHR 0x27] @ ''.'' @ ENDC)
                (show_main_menu w1)"
  have s1: "main example_env [''2'', ''4'', ''10''] w0 =
      (case main example_env [''4'', ''10''] w1 of (m, w', r) \<Rightarrow> (1 + m, w', r))"
    using missing_dependency_is_reported[of example_env "[''4'', ''10'']" w0] p
    unfolding w1_def by (simp del: main.simps)
  have s2: "main example_env [''4'', ''10''] w1 =
      (case main example_env [''10''] w2 of (m, w', r) \<Rightarrow> (1 + m, w', r))"
    using missing_dependency_is_reported[of example_env "[''10'']" w1] m
    unfolding w2_def by (simp del: main.simps)
  have "main example_env [''2'', ''4'', ''10''] w0 = (3, print ''Exiting...'' (show_main_menu w2), None)"
    unfolding s1 s2 x by simp
  then show ?thesis using p m unfolding w2_def w1_def w0_def by simp
qed

lemma prints_eq: "prints ss w = w\<lparr>stdout := stdout w @ map (\<lambda>s. s @ [nl]) ss\<rparr>"
  unfolding prints_def by (induction ss arbitrary: w) (simp_all add: print_def)

lemma show_main_menu_text:
  "show_main_menu w = w\<lparr>stdout := stdout w @
     [HEADER @ [nl] @ replicate 58 CHR ''='' @ [nl],
      BOLD @ ''MyStation: Memory and data view. Simple.'' @ [nl] @ ''v2.0'' @ [nl] @ ''By - InkWizy''
        @ ENDC @ [nl],
      HEADER @ replicate 58 CHR ''='' @ ENDC @ [nl],
      OKGREEN @ ''1.'' @ ENDC @ '' Check Disks'' @ [nl],
      OKGREEN @ ''2.'' @ ENDC @ '' Memory Monitoring'' @ WARNING
        @ '' (Warning: This feature overrides all others.)'' @ [nl],
      OKGREEN @ ''3.'' @ ENDC @ '' CPU Monitoring'' @ WARNING
        @ '' (Warning: This feature overrides all others.)'' @ [nl],
      OKGREEN @ ''4.'' @ ENDC @ '' Usage Graphs'' @ [nl],
      OKGREEN @ ''5.'' @ ENDC @ '' View Processes'' @ [nl],
      OKGREEN @ ''6.'' @ ENDC @ '' System Management'' @ [nl],
      OKGREEN @ ''7.'' @ ENDC @ '' File Browser'' @ [nl],
      OKGREEN @ ''8.'' @ ENDC @ '' Windows System Optimization'' @ [nl],
      WARNING @ ''9.'' @ ENDC @ '' Extended Features (Coming soon!)'' @ [nl],
      FAIL @ ''10.'' @ ENDC @ '' Exit'' @ [nl],
      ''Select a menu item: '']\<rparr>"
proof -
  have l: "length main_title = 58" by (simp add: main_title_def)
  have "show_main_menu w = w\<lparr>stdout := stdout w @
     [HEADER @ [nl] @ replicate (length main_title) CHR ''='' @ [nl],
      BOLD @ main_title @ ENDC @ [nl],
      HEADER @ replicate (length main_title) CHR ''='' @ ENDC @ [nl]]
     @ map (\<lambda>s. s @ [nl]) main_menu @ [''Select a menu item: '']\<rparr>"
    by (simp add: show_main_menu_def write_prompt_def prints_eq print_separator_def)
  then show ?thesis unfolding l by (simp add: main_menu_def main_title_def)
qed

text \<open>
  Claim C5. Every pass of the loop of \<open>main\<close> first writes the menu: the title between
  two rules of 58 signs, the ten items and the prompt. At the line \<open>10\<close> the function
  then writes \<open>Exiting...\<close> and returns: one line has been read and nothing else is
  written. At a line that is none of \<open>1\<close> to \<open>10\<close> it writes the invalid-choice message,
  changes nothing else, and goes on with the next line from that state, which starts by
  writing the same menu again.
\<close>
theorem main_exit_and_invalid_choice:
  "(let menu =
      [HEADER @ [nl] @ replicate 58 CHR ''='' @ [nl],
       BOLD @ ''MyStation: Memory and data view. Simple.'' @ [nl] @ ''v2.0'' @ [nl] @ ''By - InkWizy''
         @ ENDC @ [nl],
       HEADER @ replicate 58 CHR ''='' @ ENDC @ [nl],
       OKGREEN @ ''1.'' @ ENDC @ '' Check Disks'' @ [nl],
       OKGREEN @ ''2.'' @ ENDC @ '' Memory Monitoring'' @ WARNING
         @ '' (Warning: This feature overrides all others.)'' @ [nl],
       OKGREEN @ ''3.'' @ ENDC @ '' CPU Monitoring'' @ WARNING
         @ '' (Warning: This feature overrides all others.)'' @ [nl],
       OKGREEN @ ''4.'' @ ENDC @ '' Usage Graphs'' @ [nl],
       OKGREEN @ ''5.'' @ ENDC @ '' View Processes'' @ [nl],
       OKGREEN @ ''6.'' @ ENDC @ '' System Management'' @ [nl],
       OKGREEN @ ''7.'' @ ENDC @ '' File Browser'' @ [nl],
       OKGREEN @ ''8.'' @ ENDC @ '' Windows System Optimization'' @ [nl],
       WARNING @ ''9.'' @ ENDC @ '' Extended Features (Coming soon!)'' @ [nl],
       FAIL @ ''10.'' @ ENDC @ '' Exit'' @ [nl],
       ''Select a menu item: '']
    in main env (''10'' # rest) w
         = (1, w\<lparr>stdout := stdout w @ menu @ [''Exiting...'' @ [nl]]\<rparr>, None)
     \<and> (choice \<notin> set main_choices \<longrightarrow>
          main env (choice # rest) w =
            (case main env rest
                    (w\<lparr>stdout := stdout w @ menu @ [''Invalid choice. Please try again.'' @ [nl]]\<rparr>)
             of (m, w', r) \<Rightarrow> (1 + m, w', r))
          \<and> prefix (stdout w @ menu @ [''Invalid choice. Please try again.'' @ [nl]] @ menu)
                   (stdout (fst (snd (main env (choice # rest) w))))))"
proof -
  define menu where "menu =
      [HEADER @ [nl] @ replicate 58 CHR ''='' @ [nl],
       BOLD @ ''MyStation: Memory and data view. Simple.'' @ [nl] @ ''v2.0'' @ [nl] @ ''By - InkWizy''
         @ ENDC @ [nl],
       HEADER @ replicate 58 CHR ''='' @ ENDC @ [nl],
       OKGREEN @ ''1.'' @ ENDC @ '' Check Disks'' @ [nl],
       OKGREEN @ ''2.'' @ ENDC @ '' Memory Monitoring'' @ WARNING
         @ '' (Warning: This feature overrides all others.)'' @ [nl],
       OKGREEN @ ''3.'' @ ENDC @ '' CPU Monitoring'' @ WARNING
         @ '' (Warning: This feature overrides all others.)'' @ [nl],
       OKGREEN @ ''4.'' @ ENDC @ '' Usage Graphs'' @ [nl],
       OKGREEN @ ''5.'' @ ENDC @ '' View Processes'' @ [nl],
       OKGREEN @ ''6.'' @ ENDC @ '' System Management'' @ [nl],
       OKGREEN @ ''7.'' @ ENDC @ '' File Browser'' @ [nl],
       OKGREEN @ ''8.'' @ ENDC @ '' Windows System Optimization'' @ [nl],
       WARNING @ ''9.'' @ ENDC @ '' Extended Features (Coming soon!)'' @ [nl],
       FAIL @ ''10.'' @ ENDC @ '' Exit'' @ [nl],
       ''Select a menu item: '']"
  have sm: "show_main_menu v = v\<lparr>stdout := stdout v @ menu\<rparr>" for v :: "'a world"
    unfolding menu_def by (rule show_main_menu_text)
  define w' where "w' = w\<lparr>stdout := stdout w @ menu @ [''Invalid choice. Please try again.'' @ [nl]]\<rparr>"
  have pi: "print ''Invalid choice. Please try again.'' (show_main_menu w) = w'"
    unfolding sm w'_def by (simp add: print_def)
  have pe: "print ''Exiting...'' (show_main_menu w) = w\<lparr>stdout := stdout w @ menu @ [''Exiting...'' @ [nl]]\<rparr>"
    unfolding sm by (simp add: print_def)
  have e1: "main env (''10'' # rest) w = (1, w\<lparr>stdout := stdout w @ menu @ [''Exiting...'' @ [nl]]\<rparr>, None)"
    unfolding pe[symmetric] by (simp add: main_dispatch_def)
  have e2: "main env (choice # rest) w = (case main env rest w' of (m, w', r) \<Rightarrow> (1 + m, w', r))"
    if "choice \<notin> set main_choices"
    unfolding pi[symmetric] using that by (simp add: main_dispatch_def main_choices_def)
  have e3: "prefix (stdout w @ menu @ [''Invalid choice. Please try again.'' @ [nl]] @ menu)
                   (stdout (fst (snd (main env (choice # rest) w))))"
    if "choice \<notin> set main_choices"
  proof -
    have "fst (snd (main env (choice # rest) w)) = fst (snd (main env rest w'))"
      unfolding e2[OF that] by (cases "main env rest w'") simp
    moreover have "stdout (show_main_menu w') = stdout w @ menu @ [''Invalid choice. Please try again.'' @ [nl]] @ menu"
      unfolding sm by (simp add: w'_def)
    ultimately show ?thesis using grows_main[of w' env rest] by simp
  qed
  show ?thesis
    unfolding Let_def menu_def[symmetric] using e1 e2 e3 unfolding w'_def by blast
qed

theorem main_exit_and_invalid_choice_witness:
  "''abc'' \<notin> set main_choices
   \<and> (let menu =
      [HEADER @ [nl] @ replicate 58 CHR ''='' @ [nl],
       BOLD @ ''MyStation: Memory and data view. Simple.'' @ [nl] @ ''v2.0'' @ [nl] @ ''By - InkWizy''
         @ ENDC @ [nl],
       HEADER @ replicate 58 CHR ''='' @ ENDC @ [nl],
       OKGREEN @ ''1.'' @ ENDC @ '' Check Disks'' @ [nl],
       OKGREEN @ ''2.'' @ ENDC @ '' Memory Monitoring'' @ WARNING
         @ '' (Warning: This feature overrides all others.)'' @ [nl],
       OKGREEN @ ''3.'' @ ENDC @ '' CPU Monitoring'' @ WARNING
         @ '' (Warning: This feature overrides all others.)'' @ [nl],
       OKGREEN @ ''4.'' @ ENDC @ '' Usage Graphs'' @ [nl],
       OKGREEN @ ''5.'' @ ENDC @ '' View Processes'' @ [nl],
       OKGREEN @ ''6.'' @ ENDC @ '' System Management'' @ [nl],
       OKGREEN @ ''7.'' @ ENDC @ '' File Browser'' @ [nl],
       OKGREEN @ ''8.'' @ ENDC @ '' Windows System Optimization'' @ [nl],
       WARNING @ ''9.'' @ ENDC @ '' Extended Features (Coming soon!)'' @ [nl],
       FAIL @ ''10.'' @ ENDC @ '' Exit'' @ [nl],
       ''Select a menu item: '']
    in main example_env [''abc'', ''10''] (example_world nothing_fails) =
        (2, (example_world nothing_fails)\<lparr>stdout :=
               menu @ [''Invalid choice. Please try again.'' @ [nl]] @ menu @ [''Exiting...'' @ [nl]]\<rparr>,
         None))"
proof -
  define menu where "menu =
      [HEADER @ [nl] @ replicate 58 CHR ''='' @ [nl],
       BOLD @ ''MyStation: Memory and data view. Simple.'' @ [nl] @ ''v2.0'' @ [nl] @ ''By - InkWizy''
         @ ENDC @ [nl],
       HEADER @ replicate 58 CHR ''='' @ ENDC @ [nl],
       OKGREEN @ ''1.'' @ ENDC @ '' Check Disks'' @ [nl],
       OKGREEN @ ''2.'' @ ENDC @ '' Memory Monitoring'' @ WARNING
         @ '' (Warning: This feature overrides all others.)'' @ [nl],
       OKGREEN @ ''3.'' @ ENDC @ '' CPU Monitoring'' @ WARNING
         @ '' (Warning: This feature overrides all others.)'' @ [nl],
       OKGREEN @ ''4.'' @ ENDC @ '' Usage Graphs'' @ [nl],
       OKGREEN @ ''5.'' @ ENDC @ '' View Processes'' @ [nl],
       OKGREEN @ ''6.'' @ ENDC @ '' System Management'' @ [nl],
       OKGREEN @ ''7.'' @ ENDC @ '' File Browser'' @ [nl],
       OKGREEN @ ''8.'' @ ENDC @ '' Windows System Optimization'' @ [nl],
       WARNING @ ''9.'' @ ENDC @ '' Extended Features (Coming soon!)'' @ [nl],
       FAIL @ ''10.'' @ ENDC @ '' Exit'' @ [nl],
       ''Select a menu item: '']"
  define w0 where "w0 = example_world nothing_fails"
  define w1 where "w1 = w0\<lparr>stdout := stdout w0 @ menu @ [''Invalid choice. Please try again.'' @ [nl]]\<rparr>"
  have n: "''abc'' \<notin> set main_choices" by (simp add: main_choices_def)
  have s1: "main example_env [''abc'', ''10''] w0 =
      (case main example_env [''10''] w1 of (m, w', r) \<Rightarrow> (1 + m, w', r))"
    using main_exit_and_invalid_choice[of example_env "[''10'']" w0 "''abc''"] n
    unfolding Let_def menu_def[symmetric] w1_def by blast
  have s2: "main example_env [''10''] w1 = (1, w1\<lparr>stdout := stdout w1 @ menu @ [''Exiting...'' @ [nl]]\<rparr>, None)"
    using main_exit_and_invalid_choice[of example_env "[]" w1 "''abc''"]
    unfolding Let_def menu_def[symmetric] by blast
  have z: "stdout w0 = []" by (simp add: w0_def example_world_def)
  have "main example_env [''abc'', ''10''] w0 =
      (2, w0\<lparr>stdout := menu @ [''Invalid choice. Please try again.'' @ [nl]] @ menu @ [''Exiting...'' @ [nl]]\<rparr>, None)"
    unfolding s1 s2 by (simp add: w1_def z)
  then show ?thesis using n unfolding Let_def menu_def[symmetric] w0_def by simp
qed

section \<open>Running all optimizations\<close>

lemma calls_print: "calls (print s w) = calls w"
  by (simp add: print_def)

lemma calls_call: "calls (fst (snd (call env t ins w))) = calls w @ [t]"
  by (simp add: call_def split: effect.splits)

lemma raised_call: "snd (snd (call env t ins w)) = raised (ext env t ins (host w))"
  by (simp add: call_def split: effect.splits)

lemma run_tasks_calls:
  "\<exists>k \<le> length ts.
     calls (fst (snd (run_tasks env ts ins w))) = calls w @ map snd (take k ts)
     \<and> (snd (snd (run_tasks env ts ins w)) = None \<longrightarrow> k = length ts)"
proof (induction ts arbitrary: ins w)
  case Nil
  then show ?case by simp
next
  case (Cons p ts)
  obtain task_name task_func where p: "p = (task_name, task_func)" by (cases p)
  define w0 where "w0 = print ([nl] @ OKCYAN @ ''>>> '' @ task_name @ ''...'' @ ENDC) w"
  obtain n w1 r where c: "call env task_func ins w0 = (n, w1, r)" by (cases "call env task_func ins w0") auto
  have 1: "calls w1 = calls w @ [task_func]"
    using calls_call[of env task_func ins w0] c by (simp add: w0_def calls_print)
  show ?case
  proof (cases "case r of None \<Rightarrow> False | Some e \<Rightarrow> \<not> is_Exception e")
    case True
    then have res: "run_tasks env (p # ts) ins w = (n, w1, r)" using c by (simp add: p w0_def)
    have "r \<noteq> None" using True by (cases r) auto
    then have "snd (snd (run_tasks env (p # ts) ins w)) \<noteq> None" unfolding res by simp
    moreover have "calls (fst (snd (run_tasks env (p # ts) ins w))) = calls w @ map snd (take 1 (p # ts))"
      unfolding res using 1 by (simp add: p)
    ultimately show ?thesis by (intro exI[of _ 1]) (auto simp del: run_tasks.simps)
  next
    case False
    define w3 where "w3 = (case r of None \<Rightarrow> w1
       | Some e \<Rightarrow> print (FAIL @ ''Error during '' @ task_name @ '': '' @ exn_str e @ ENDC) w1)
          \<lparr>slept := slept (case r of None \<Rightarrow> w1
       | Some e \<Rightarrow> print (FAIL @ ''Error during '' @ task_name @ '': '' @ exn_str e @ ENDC) w1) + 1\<rparr>"
    have 2: "calls w3 = calls w1" unfolding w3_def by (simp add: calls_print split: option.splits)
    obtain m w4 r' where rt: "run_tasks env ts (drop n ins) w3 = (m, w4, r')"
      by (cases "run_tasks env ts (drop n ins) w3") auto
    have eq: "run_tasks env (p # ts) ins w = (n + m, w4, r')"
      using False c rt by (simp add: p w0_def w3_def Let_def)
    from Cons.IH[of "drop n ins" w3] rt obtain k where
      k: "k \<le> length ts" "calls w4 = calls w3 @ map snd (take k ts)" "r' = None \<longrightarrow> k = length ts"
      by auto
    have "calls (fst (snd (run_tasks env (p # ts) ins w))) = calls w @ map snd (take (Suc k) (p # ts))"
      unfolding eq using k(2) 1 2 by (simp add: p)
    moreover have "snd (snd (run_tasks env (p # ts) ins w)) = None \<longrightarrow> Suc k = length (p # ts)"
      unfolding eq using k(3) by simp
    ultimately show ?thesis using k(1) by (intro exI[of _ "Suc k"]) (auto simp del: run_tasks.simps)
  qed
qed

lemma run_tasks_returns:
  assumes "\<forall>t i h e. raised (ext env t i h) = Some e \<longrightarrow> is_Exception e"
  shows "snd (snd (run_tasks env ts ins w)) = None
     \<and> slept (fst (snd (run_tasks env ts ins w))) = slept w + length ts"
proof (induction ts arbitrary: ins w)
  case Nil
  then show ?case by simp
next
  case (Cons p ts)
  obtain task_name task_func where p: "p = (task_name, task_func)" by (cases p)
  define w0 where "w0 = print ([nl] @ OKCYAN @ ''>>> '' @ task_name @ ''...'' @ ENDC) w"
  obtain n w1 r where c: "call env task_func ins w0 = (n, w1, r)" by (cases "call env task_func ins w0") auto
  have r: "r = raised (ext env task_func ins (host w0))" using raised_call[of env task_func ins w0] c by simp
  have False: "\<not> (case r of None \<Rightarrow> False | Some e \<Rightarrow> \<not> is_Exception e)"
    using assms r by (auto split: option.splits)
  have s1: "slept w1 = slept w" using c by (auto simp add: call_def w0_def print_def split: effect.splits)
  define w3 where "w3 = (case r of None \<Rightarrow> w1
       | Some e \<Rightarrow> print (FAIL @ ''Error during '' @ task_name @ '': '' @ exn_str e @ ENDC) w1)
          \<lparr>slept := slept (case r of None \<Rightarrow> w1
       | Some e \<Rightarrow> print (FAIL @ ''Error during '' @ task_name @ '': '' @ exn_str e @ ENDC) w1) + 1\<rparr>"
  have s3: "slept w3 = slept w + 1" unfolding w3_def using s1 by (simp add: print_def split: option.splits)
  obtain m w4 r' where rt: "run_tasks env ts (drop n ins) w3 = (m, w4, r')"
    by (cases "run_tasks env ts (drop n ins) w3") auto
  have eq: "run_tasks env (p # ts) ins w = (n + m, w4, r')"
    using False c rt by (simp add: p w0_def w3_def Let_def)
  show ?case unfolding eq using Cons.IH[of "drop n ins" w3] rt s3 by simp
qed


text \<open>
  Claim C10. The external actions that \<open>run_all_optimizations\<close> calls are, in this order,
  an initial part of the seven of its list, and all seven when it returns without an
  exception; the startup manager is never among them, although line \<open>8\<close> of the
  optimization menu calls it and line \<open>9\<close> is \<open>run_all_optimizations\<close>.
\<close>
theorem run_all_excludes_startup_management:
  "(\<exists>k \<le> 7. calls (fst (snd (run_all_optimizations env ins w))) =
        calls w @ take k [CleanTempFiles, ClearUpdateCache, ClearDnsCache, ClearPrefetch,
                          OptimizeDisks, CleanRecycleBin, ClearEventLogs])
   \<and> (snd (snd (run_all_optimizations env ins w)) = None \<longrightarrow>
        calls (fst (snd (run_all_optimizations env ins w))) =
        calls w @ [CleanTempFiles, ClearUpdateCache, ClearDnsCache, ClearPrefetch,
                   OptimizeDisks, CleanRecycleBin, ClearEventLogs])
   \<and> (ManageStartupPrograms \<notin> set (calls w) \<longrightarrow>
        ManageStartupPrograms \<notin> set (calls (fst (snd (run_all_optimizations env ins w)))))
   \<and> calls (fst (snd (optimization_dispatch env ''8'' ins w))) = calls w @ [ManageStartupPrograms]
   \<and> optimization_dispatch env ''9'' ins w = run_all_optimizations env ins w"
proof -
  define w0 where "w0 = print (HEADER @ ''Running all Windows optimizations...'' @ ENDC) w"
  define seven where "seven = [CleanTempFiles, ClearUpdateCache, ClearDnsCache, ClearPrefetch,
                          OptimizeDisks, CleanRecycleBin, ClearEventLogs]"
  have ms: "map snd optimizations = seven" by (simp add: optimizations_def seven_def)
  obtain n w1 r where rt: "run_tasks env optimizations ins w0 = (n, w1, r)"
    by (cases "run_tasks env optimizations ins w0") auto
  from run_tasks_calls[of optimizations env ins w0] rt obtain k where
    k: "k \<le> length optimizations" "calls w1 = calls w0 @ map snd (take k optimizations)"
       "r = None \<longrightarrow> k = length optimizations" by auto
  have len: "length optimizations = 7" by (simp add: optimizations_def)
  have k2: "calls w1 = calls w @ take k seven"
    using k(2) by (simp add: w0_def calls_print take_map[symmetric] ms)
  have ra: "run_all_optimizations env ins w =
      (case r of Some e \<Rightarrow> (n, w1, Some e)
       | None \<Rightarrow> (n, print (OKGREEN @ [nl] @ ''All optimizations completed!'' @ ENDC) w1, None))"
    unfolding run_all_optimizations_def w0_def[symmetric] rt by (cases r) simp_all
  have c1: "calls (fst (snd (run_all_optimizations env ins w))) = calls w @ take k seven"
    unfolding ra using k2 by (cases r) (simp_all add: calls_print)
  have r1: "snd (snd (run_all_optimizations env ins w)) = r"
    unfolding ra by (cases r) simp_all
  have a: "\<exists>k \<le> 7. calls (fst (snd (run_all_optimizations env ins w))) = calls w @ take k seven"
    using c1 k(1) len by auto
  have b: "calls (fst (snd (run_all_optimizations env ins w))) = calls w @ seven"
    if "snd (snd (run_all_optimizations env ins w)) = None"
    using that r1 k(3) c1 len by (simp add: seven_def)
  have c: "ManageStartupPrograms \<notin> set (calls (fst (snd (run_all_optimizations env ins w))))"
    if "ManageStartupPrograms \<notin> set (calls w)"
  proof -
    have "set (take k seven) \<subseteq> set seven" by (rule set_take_subset)
    then have "ManageStartupPrograms \<notin> set (take k seven)" by (auto simp add: seven_def)
    then show ?thesis using that c1 by simp
  qed
  have d: "calls (fst (snd (optimization_dispatch env ''8'' ins w))) = calls w @ [ManageStartupPrograms]"
    by (simp add: optimization_dispatch_def calls_call)
  have e: "optimization_dispatch env ''9'' ins w = run_all_optimizations env ins w"
    by (simp add: optimization_dispatch_def)
  show ?thesis using a b c d e unfolding seven_def by blast
qed

lemma example_env_raises_Exceptions:
  "\<forall>t i h e. raised (ext example_env t i h) = Some e \<longrightarrow> is_Exception e"
  by (simp add: example_env_def)

lemma run_all_example_returns:
  "snd (snd (run_all_optimizations example_env ins (example_world f))) = None"
proof -
  obtain n w1 r where rt: "run_tasks example_env optimizations ins
      (print (HEADER @ ''Running all Windows optimizations...'' @ ENDC) (example_world f)) = (n, w1, r)"
    by (metis prod_cases3)
  have "r = None"
    using run_tasks_returns[OF example_env_raises_Exceptions, of optimizations ins
        "print (HEADER @ ''Running all Windows optimizations...'' @ ENDC) (example_world f)"]
    unfolding rt by simp
  then show ?thesis unfolding run_all_optimizations_def rt by simp
qed

theorem run_all_excludes_startup_management_witness:
  "ManageStartupPrograms \<notin> set (calls (example_world (\<lambda>t. False)))
   \<and> snd (snd (run_all_optimizations example_env [] (example_world (\<lambda>t. False)))) = None
   \<and> calls (fst (snd (run_all_optimizations example_env [] (example_world (\<lambda>t. False))))) =
        [CleanTempFiles, ClearUpdateCache, ClearDnsCache, ClearPrefetch,
         OptimizeDisks, CleanRecycleBin, ClearEventLogs]
   \<and> ManageStartupPrograms \<notin> set (calls (fst (snd (run_all_optimizations example_env []
        (example_world (\<lambda>t. False))))))"
proof -
  have c: "calls (example_world (\<lambda>t. False)) = []" by (simp add: example_world_def)
  show ?thesis
    using run_all_excludes_startup_management[of example_env "[]" "example_world (\<lambda>t. False)"]
      run_all_example_returns[of "[]" "\<lambda>t. False"] c
    by simp
qed







section \<open>Evaluating the parser\<close>

lemma nearest_double_in_range:
  assumes "0 < q" and "2 powi E \<le> q" and "q < 2 powi (E + 1)" and "- 1022 \<le> E" and "E \<le> 1022"
  shows "nearest_double q = Some (of_int (round_half_even (q / 2 powi (E - 52))) * 2 powi (E - 52))"
proof -
  have F: "floor_log2 q = E"
    using floor_log2_less[OF assms(1) assms(3)] floor_log2_ge[OF assms(1) assms(2)] by simp
  have e: "max (floor_log2 q - 52) (- 1074) = E - 52" unfolding F using assms(4) by simp
  have r: "round_to_53_bits q = of_int (round_half_even (q / 2 powi (E - 52))) * 2 powi (E - 52)"
    unfolding round_to_53_bits_def Let_def e ..
  have "q < 2 powi (E + 1)" by (rule assms(3))
  also have "\<dots> \<le> 2 powi 1023" using assms(5) by (intro power_int_increasing) simp_all
  also have "\<dots> < (2::rat) ^ 1024 - 2 ^ 970" by simp
  finally have "round_to_53_bits q < 2 ^ 1024"
    by (rule round_to_53_bits_no_overflow[OF assms(1)])
  then have "\<not> 2 ^ 1024 \<le> round_to_53_bits \<bar>q\<bar>" using assms(1) by simp
  moreover have "q \<noteq> 0" "sgn q = 1" "\<bar>q\<bar> = q" using assms(1) by simp_all
  ultimately show ?thesis unfolding nearest_double_def Let_def using r by simp
qed

lemmas str_eval = strip_def py_isspace_def nl_def py_in_def sublist_Cons_right replace.simps
  read_decimal_def read_exponent_def is_digit_def digits_value_def digit_val_def Let_def
  float_isspace_def py_float_def lower_def field_value_def

section \<open>The block that \<open>save_history\<close> writes\<close>

lemma format_size_defined:
  assumes "\<bar>b\<bar> < 2 ^ 1023"
  shows "\<exists>s. format_size b = Inr s"
proof -
  have small: "\<bar>of_int b / of_int d :: rat\<bar> < 2 ^ 1024 - 2 ^ 970" if "1 \<le> d" for d :: int
  proof -
    have "(1::rat) \<le> of_int d" using that by simp
    then have "\<bar>of_int b :: rat\<bar> / of_int d \<le> \<bar>of_int b\<bar> / 1"
      by (intro divide_left_mono) simp_all
    then have "\<bar>of_int b / of_int d :: rat\<bar> \<le> \<bar>of_int b\<bar>" using that by simp
    also have "\<dots> = of_int \<bar>b\<bar>" by simp
    also have "\<dots> < of_int (2 ^ 1023)" using assms by (simp only: of_int_less_iff)
    also have "\<dots> < (2::rat) ^ 1024 - 2 ^ 970" by simp
    finally show ?thesis .
  qed
  have td: "\<exists>v. py_truediv b d = Inr v" if "1 \<le> d" for d
  proof -
    have "nearest_double (of_int b / of_int d) \<noteq> None"
      unfolding nearest_double_None_iff using small[OF that] by simp
    then show ?thesis using that by (auto simp add: py_truediv_def)
  qed
  have fi: "\<exists>v. py_float_of_int b = Inr v"
  proof -
    have "nearest_double (of_int b) \<noteq> None"
      unfolding nearest_double_None_iff using small[of 1] by simp
    then show ?thesis by (auto simp add: py_float_of_int_def)
  qed
  obtain v1 v2 v3 v4 where
    "py_truediv b (1024 ^ 3) = Inr v1" "py_truediv b (1024 ^ 2) = Inr v2"
    "py_truediv b 1024 = Inr v3" "py_float_of_int b = Inr v4"
    using td[of "1024 ^ 3"] td[of "1024 ^ 2"] td[of 1024] fi by auto
  then show ?thesis by (simp add: format_size_def size_and_unit_def)
qed

lemma write_snapshots_lines:
  assumes "\<forall>(drive, total_bytes, used_bytes, free_bytes) \<in> set data.
             \<bar>total_bytes\<bar> < 2 ^ 1023 \<and> \<bar>used_bytes\<bar> < 2 ^ 1023 \<and> \<bar>free_bytes\<bar> < 2 ^ 1023"
  shows "\<exists>lines. write_snapshots data content = (content @ concat lines, None)
     \<and> list_all2 (\<lambda>(drive, total_bytes, used_bytes, free_bytes) l.
          \<exists>t u f. format_size total_bytes = Inr t \<and> format_size used_bytes = Inr u
                 \<and> format_size free_bytes = Inr f
                 \<and> l = drive @ '' | Total: '' @ t @ '' | Used: '' @ u @ '' | Free: '' @ f @ [nl])
        data lines"
  using assms
proof (induction data arbitrary: content)
  case Nil
  then show ?case by simp
next
  case (Cons p data)
  obtain drive tb ub fb where p: "p = (drive, tb, ub, fb)" by (cases p) auto
  have b: "\<bar>tb\<bar> < 2 ^ 1023" "\<bar>ub\<bar> < 2 ^ 1023" "\<bar>fb\<bar> < 2 ^ 1023"
    using Cons.prems p by auto
  obtain t u f where fs: "format_size tb = Inr t" "format_size ub = Inr u" "format_size fb = Inr f"
    using format_size_defined[OF b(1)] format_size_defined[OF b(2)] format_size_defined[OF b(3)]
    by auto
  define l where "l = drive @ '' | Total: '' @ t @ '' | Used: '' @ u @ '' | Free: '' @ f @ [nl]"
  have hl: "history_line drive (tb, ub, fb) = Inr l"
    by (simp add: history_line_def fs l_def)
  have rest: "\<forall>(drive, total_bytes, used_bytes, free_bytes) \<in> set data.
             \<bar>total_bytes\<bar> < 2 ^ 1023 \<and> \<bar>used_bytes\<bar> < 2 ^ 1023 \<and> \<bar>free_bytes\<bar> < 2 ^ 1023"
    using Cons.prems by simp
  from Cons.IH[OF rest, of "content @ l"] obtain lines where
    ih: "write_snapshots data (content @ l) = ((content @ l) @ concat lines, None)"
        "list_all2 (\<lambda>(drive, total_bytes, used_bytes, free_bytes) l.
          \<exists>t u f. format_size total_bytes = Inr t \<and> format_size used_bytes = Inr u
                 \<and> format_size free_bytes = Inr f
                 \<and> l = drive @ '' | Total: '' @ t @ '' | Used: '' @ u @ '' | Free: '' @ f @ [nl])
        data lines" by blast
  have 1: "write_snapshots (p # data) content = (content @ concat (l # lines), None)"
    using ih(1) hl by (simp add: p)
  have 2: "list_all2 (\<lambda>(drive, total_bytes, used_bytes, free_bytes) l.
          \<exists>t u f. format_size total_bytes = Inr t \<and> format_size used_bytes = Inr u
                 \<and> format_size free_bytes = Inr f
                 \<and> l = drive @ '' | Total: '' @ t @ '' | Used: '' @ u @ '' | Free: '' @ f @ [nl])
        (p # data) (l # lines)"
    using ih(2) fs by (simp add: p l_def)
  show ?case using 1 2 by blast
qed

lemma show_int_length:
  "0 \<le> n \<Longrightarrow> n < 10 ^ k \<Longrightarrow> 0 < k \<Longrightarrow> length (show_int n) \<le> k"
proof (induction n arbitrary: k rule: show_int.induct)
  case (1 n)
  show ?case
  proof (cases "n < 10")
    case True
    then show ?thesis using "1.prems" by (subst show_int.simps) simp
  next
    case False
    then have k2: "2 \<le> k" using "1.prems"
      by (cases k; cases "k - 1") auto
    have "n < 10 * 10 ^ (k - 1)" using "1.prems" k2 by (cases k) auto
    then have "n div 10 < 10 ^ (k - 1)" by simp
    moreover have "0 \<le> n div 10" using "1.prems" by simp
    ultimately have "length (show_int (n div 10)) \<le> k - 1"
      using "1.IH"[OF False, of "k - 1"] k2 by simp
    then show ?thesis using False k2 by (subst show_int.simps) simp
  qed
qed

lemma pad_shape:
  assumes "int n < 10 ^ k" and "0 < k"
  shows "length (pad k n) = k \<and> list_all is_digit (pad k n)"
proof -
  have l: "length (show_int (int n)) \<le> k" using show_int_length[of "int n" k] assms by simp
  have d: "list_all is_digit (show_int (int n))"
    using show_int_digits[of "int n"] by (simp add: list_all_iff)
  have z: "is_digit CHR ''0''" by (simp add: is_digit_def)
  show ?thesis unfolding pad_def Let_def using l d z by (auto simp add: list_all_iff)
qed


lemma strftime_shape:
  assumes "year t < 10000" "month t < 100" "day t < 100"
    "hour t < 100" "minute t < 100" "second t < 100"
  shows "\<exists>y mo d h mi s.
           strftime t = y @ ''-'' @ mo @ ''-'' @ d @ '' '' @ h @ '':'' @ mi @ '':'' @ s
           \<and> map length [y, mo, d, h, mi, s] = [4, 2, 2, 2, 2, 2]
           \<and> list_all is_digit (y @ mo @ d @ h @ mi @ s)"
proof -
  have y: "length (pad 4 (year t)) = 4 \<and> list_all is_digit (pad 4 (year t))"
    using pad_shape[of "year t" 4] assms(1) by simp
  have mo: "length (pad 2 (month t)) = 2 \<and> list_all is_digit (pad 2 (month t))"
    using pad_shape[of "month t" 2] assms(2) by simp
  have d: "length (pad 2 (day t)) = 2 \<and> list_all is_digit (pad 2 (day t))"
    using pad_shape[of "day t" 2] assms(3) by simp
  have h: "length (pad 2 (hour t)) = 2 \<and> list_all is_digit (pad 2 (hour t))"
    using pad_shape[of "hour t" 2] assms(4) by simp
  have mi: "length (pad 2 (minute t)) = 2 \<and> list_all is_digit (pad 2 (minute t))"
    using pad_shape[of "minute t" 2] assms(5) by simp
  have s: "length (pad 2 (second t)) = 2 \<and> list_all is_digit (pad 2 (second t))"
    using pad_shape[of "second t" 2] assms(6) by simp
  show ?thesis
    apply (rule exI[of _ "pad 4 (year t)"], rule exI[of _ "pad 2 (month t)"])
    apply (rule exI[of _ "pad 2 (day t)"], rule exI[of _ "pad 2 (hour t)"])
    apply (rule exI[of _ "pad 2 (minute t)"], rule exI[of _ "pad 2 (second t)"])
    using y mo d h mi s by (simp add: strftime_def)
qed

lemma pad_eval: "pad k n = replicate (k - length (show_int (int n))) CHR ''0'' @ show_int (int n)"
  by (simp add: pad_def Let_def)

text \<open>
  Claim C2 as worded fails. On a host without the log, saving one snapshot writes a block
  whose second line is the escape sequence of \<open>Colors.MAGENTA\<close> followed by the 40 dashes:
  45 characters, not a line of exactly 40 dashes.
\<close>
theorem save_history_separator_counterexample:
  "files (host (fst (save_history example_env
       [(''C'', 500000000000, 300000000000, 200000000000)] history_filename
       (example_world nothing_fails)))) history_filename
     = Some ([nl] @ ESC # ''[95m'' @ replicate 40 CHR ''-'' @ [nl]
             @ ''Timestamp: 2024-03-09 14:05:07'' @ [nl]
             @ ''C | Total: 465.66 GB | Used: 279.40 GB | Free: 186.26 GB'' @ [nl])
   \<and> file_lines ([nl] @ ESC # ''[95m'' @ replicate 40 CHR ''-'' @ [nl]
             @ ''Timestamp: 2024-03-09 14:05:07'' @ [nl]
             @ ''C | Total: 465.66 GB | Used: 279.40 GB | Free: 186.26 GB'' @ [nl]) ! 1
       = ESC # ''[95m'' @ replicate 40 CHR ''-'' @ [nl]
   \<and> ESC # ''[95m'' @ replicate 40 CHR ''-'' @ [nl] \<noteq> replicate 40 CHR ''-'' @ [nl]"
proof -
  have f: "format_size 500000000000 = Inr ''465.66 GB''"
    "format_size 300000000000 = Inr ''279.40 GB''"
    "format_size 200000000000 = Inr ''186.26 GB''"
    by (simp_all add: format_size_def size_and_unit_exact fmt_eval)
  have t: "strftime \<lparr>year = 2024, month = 3, day = 9, hour = 14, minute = 5, second = 7\<rparr>
             = ''2024-03-09 14:05:07''"
    by (simp add: strftime_def pad_eval show_int.simps digit_char_def)
  have 1: "files (host (fst (save_history example_env
       [(''C'', 500000000000, 300000000000, 200000000000)] history_filename
       (example_world nothing_fails)))) history_filename
     = Some ([nl] @ ESC # ''[95m'' @ replicate 40 CHR ''-'' @ [nl]
             @ ''Timestamp: 2024-03-09 14:05:07'' @ [nl]
             @ ''C | Total: 465.66 GB | Used: 279.40 GB | Free: 186.26 GB'' @ [nl])"
    by (simp add: save_history_def example_env_def example_world_def history_line_def f t
        MAGENTA_def print_def)
  have 2: "file_lines ([nl] @ ESC # ''[95m'' @ replicate 40 CHR ''-'' @ [nl]
             @ ''Timestamp: 2024-03-09 14:05:07'' @ [nl]
             @ ''C | Total: 465.66 GB | Used: 279.40 GB | Free: 186.26 GB'' @ [nl]) ! 1
       = ESC # ''[95m'' @ replicate 40 CHR ''-'' @ [nl]"
    by (simp add: nl_def ESC_def eval_nat_numeral)
  have 3: "ESC # ''[95m'' @ replicate 40 CHR ''-'' @ [nl] \<noteq> replicate 40 CHR ''-'' @ [nl]"
    by (simp add: ESC_def eval_nat_numeral)
  show ?thesis using 1 2 3 by (intro conjI)
qed

text \<open>
  Claim C2, amended. When the file can be opened and every size of the record is below
  \<open>2 ^ 1023\<close> in absolute value (no division overflows), \<open>save_history\<close> raises nothing,
  reports the save on the standard output, and leaves the file holding what it held
  before (nothing if it was absent) followed by exactly the block: an end of line; the
  escape sequence \<open>Colors.MAGENTA\<close> and 40 dashes; \<open>Timestamp:\<close> and the local time as four
  digits of year and two of month, day, hour, minute and second; then, for each snapshot
  in order, the line \<open><volume> | Total: <size> | Used: <size> | Free: <size>\<close>, the sizes
  as \<open>format_size\<close> returns them.
\<close>
theorem save_history_writes_block:
  assumes "open_error env (host w) filename = None"
    and "\<forall>(drive, total_bytes, used_bytes, free_bytes) \<in> set data.
           \<bar>total_bytes\<bar> < 2 ^ 1023 \<and> \<bar>used_bytes\<bar> < 2 ^ 1023 \<and> \<bar>free_bytes\<bar> < 2 ^ 1023"
    and "year (now env (host w)) < 10000" "month (now env (host w)) < 100"
      "day (now env (host w)) < 100" "hour (now env (host w)) < 100"
      "minute (now env (host w)) < 100" "second (now env (host w)) < 100"
  shows "\<exists>lines y mo d h mi s.
      save_history env data filename w =
        (print (OKCYAN @ [nl] @ ''Data saved to '' @ [CHR 0x27] @ filename @ [CHR 0x27] @ ENDC)
           (w\<lparr>host := (host w)\<lparr>files := (files (host w))(filename \<mapsto>
                (case files (host w) filename of None \<Rightarrow> [] | Some c \<Rightarrow> c)
                @ [nl] @ MAGENTA @ replicate 40 CHR ''-'' @ [nl]
                @ ''Timestamp: '' @ y @ ''-'' @ mo @ ''-'' @ d @ '' '' @ h @ '':'' @ mi @ '':'' @ s
                @ [nl] @ concat lines)\<rparr>\<rparr>),
         None)
      \<and> strftime (now env (host w))
          = y @ ''-'' @ mo @ ''-'' @ d @ '' '' @ h @ '':'' @ mi @ '':'' @ s
      \<and> map length [y, mo, d, h, mi, s] = [4, 2, 2, 2, 2, 2]
      \<and> list_all is_digit (y @ mo @ d @ h @ mi @ s)
      \<and> list_all2 (\<lambda>(drive, total_bytes, used_bytes, free_bytes) l.
          \<exists>t u f. format_size total_bytes = Inr t \<and> format_size used_bytes = Inr u
                 \<and> format_size free_bytes = Inr f
                 \<and> l = drive @ '' | Total: '' @ t @ '' | Used: '' @ u @ '' | Free: '' @ f @ [nl])
        data lines"
proof -
  define old where "old = (case files (host w) filename of None \<Rightarrow> [] | Some c \<Rightarrow> c)"
  define c2 where "c2 = (old @ [nl] @ MAGENTA @ replicate 40 CHR ''-'' @ [nl])
                         @ ''Timestamp: '' @ strftime (now env (host w)) @ [nl]"
  obtain y mo d h mi s where
    tm: "strftime (now env (host w))
           = y @ ''-'' @ mo @ ''-'' @ d @ '' '' @ h @ '':'' @ mi @ '':'' @ s"
        "map length [y, mo, d, h, mi, s] = [4, 2, 2, 2, 2, 2]"
        "list_all is_digit (y @ mo @ d @ h @ mi @ s)"
    using strftime_shape[OF assms(3-8)] by (elim exE conjE) (rule that)
  obtain lines where
    ws: "write_snapshots data c2 = (c2 @ concat lines, None)"
    and la: "list_all2 (\<lambda>(drive, total_bytes, used_bytes, free_bytes) l.
          \<exists>t u f. format_size total_bytes = Inr t \<and> format_size used_bytes = Inr u
                 \<and> format_size free_bytes = Inr f
                 \<and> l = drive @ '' | Total: '' @ t @ '' | Used: '' @ u @ '' | Free: '' @ f @ [nl])
        data lines"
    using write_snapshots_lines[OF assms(2), of c2] by blast
  have sh: "save_history env data filename w =
        (print (OKCYAN @ [nl] @ ''Data saved to '' @ [CHR 0x27] @ filename @ [CHR 0x27] @ ENDC)
           (w\<lparr>host := (host w)\<lparr>files := (files (host w))(filename \<mapsto> c2 @ concat lines)\<rparr>\<rparr>),
         None)"
    unfolding save_history_def Let_def
    using assms(1) ws by (simp add: old_def c2_def)
  have c: "c2 @ concat lines = (case files (host w) filename of None \<Rightarrow> [] | Some c \<Rightarrow> c)
                @ [nl] @ MAGENTA @ replicate 40 CHR ''-'' @ [nl]
                @ ''Timestamp: '' @ y @ ''-'' @ mo @ ''-'' @ d @ '' '' @ h @ '':'' @ mi @ '':'' @ s
                @ [nl] @ concat lines"
    unfolding c2_def old_def tm(1) by simp
  show ?thesis
    apply (rule exI[of _ lines])
    apply (rule exI[of _ y], rule exI[of _ mo], rule exI[of _ d])
    apply (rule exI[of _ h], rule exI[of _ mi], rule exI[of _ s])
    using sh c tm la by (intro conjI) simp_all
qed


theorem save_history_writes_block_witness:
  "snd (save_history example_env
          [(''/'', 4294967296, 2684354560, 1610612736), (''/home'', 1048576, 524288, 524288)]
          history_filename
          (fst (save_history example_env [] history_filename (example_world nothing_fails))))
     = None
   \<and> files (host (fst (save_history example_env
          [(''/'', 4294967296, 2684354560, 1610612736), (''/home'', 1048576, 524288, 524288)]
          history_filename
          (fst (save_history example_env [] history_filename (example_world nothing_fails))))))
        history_filename
     = Some (([nl] @ ESC # ''[95m'' @ replicate 40 CHR ''-'' @ [nl]
              @ ''Timestamp: 2024-03-09 14:05:07'' @ [nl])
             @ [nl] @ ESC # ''[95m'' @ replicate 40 CHR ''-'' @ [nl]
             @ ''Timestamp: 2024-03-09 14:05:07'' @ [nl]
             @ ''/ | Total: 4.00 GB | Used: 2.50 GB | Free: 1.50 GB'' @ [nl]
             @ ''/home | Total: 1.00 MB | Used: 512.00 KB | Free: 512.00 KB'' @ [nl])"
proof -
  define W where
    "W = fst (save_history example_env [] history_filename (example_world nothing_fails))"
  define D :: "(string \<times> int \<times> int \<times> int) list" where
    "D = [(''/'', 4294967296, 2684354560, 1610612736), (''/home'', 1048576, 524288, 524288)]"
  have t: "strftime \<lparr>year = 2024, month = 3, day = 9, hour = 14, minute = 5, second = 7\<rparr>
             = ''2024-03-09 14:05:07''"
    by (simp add: strftime_def pad_eval show_int.simps digit_char_def)
  have nw: "now example_env (host W)
              = \<lparr>year = 2024, month = 3, day = 9, hour = 14, minute = 5, second = 7\<rparr>"
    by (simp add: example_env_def)
  have old: "files (host W) history_filename
               = Some ([nl] @ ESC # ''[95m'' @ replicate 40 CHR ''-'' @ [nl]
                       @ ''Timestamp: 2024-03-09 14:05:07'' @ [nl])"
    unfolding W_def
    by (simp add: save_history_def example_env_def example_world_def t MAGENTA_def print_def)
  have f: "format_size 4294967296 = Inr ''4.00 GB''"
    "format_size 2684354560 = Inr ''2.50 GB''"
    "format_size 1610612736 = Inr ''1.50 GB''"
    "format_size 1048576 = Inr ''1.00 MB''"
    "format_size 524288 = Inr ''512.00 KB''"
    by (simp_all add: format_size_def size_and_unit_exact fmt_eval)
  have h1: "open_error example_env (host W) history_filename = None"
    by (simp add: example_env_def)
  have h2: "\<forall>(drive, total_bytes, used_bytes, free_bytes) \<in> set D.
           \<bar>total_bytes\<bar> < 2 ^ 1023 \<and> \<bar>used_bytes\<bar> < 2 ^ 1023 \<and> \<bar>free_bytes\<bar> < 2 ^ 1023"
    by (simp add: D_def)
  have h3: "year (now example_env (host W)) < 10000" "month (now example_env (host W)) < 100"
      "day (now example_env (host W)) < 100" "hour (now example_env (host W)) < 100"
      "minute (now example_env (host W)) < 100" "second (now example_env (host W)) < 100"
    by (simp_all add: nw)
  from save_history_writes_block[OF h1 h2 h3]
  obtain lines y mo d h mi s where
    sh: "save_history example_env D history_filename W =
        (print (OKCYAN @ [nl] @ ''Data saved to '' @ [CHR 0x27] @ history_filename @ [CHR 0x27] @ ENDC)
           (W\<lparr>host := (host W)\<lparr>files := (files (host W))(history_filename \<mapsto>
                (case files (host W) history_filename of None \<Rightarrow> [] | Some c \<Rightarrow> c)
                @ [nl] @ MAGENTA @ replicate 40 CHR ''-'' @ [nl]
                @ ''Timestamp: '' @ y @ ''-'' @ mo @ ''-'' @ d @ '' '' @ h @ '':'' @ mi @ '':'' @ s
                @ [nl] @ concat lines)\<rparr>\<rparr>),
         None)"
    and tm: "strftime (now example_env (host W))
          = y @ ''-'' @ mo @ ''-'' @ d @ '' '' @ h @ '':'' @ mi @ '':'' @ s"
    and la: "list_all2 (\<lambda>(drive, total_bytes, used_bytes, free_bytes) l.
          \<exists>t u f. format_size total_bytes = Inr t \<and> format_size used_bytes = Inr u
                 \<and> format_size free_bytes = Inr f
                 \<and> l = drive @ '' | Total: '' @ t @ '' | Used: '' @ u @ '' | Free: '' @ f @ [nl])
        D lines"
    by (elim exE conjE) (rule that)
  have k: "y @ ''-'' @ mo @ ''-'' @ d @ '' '' @ h @ '':'' @ mi @ '':'' @ s @ [nl] @ concat lines
             = ''2024-03-09 14:05:07'' @ [nl] @ concat lines"
    using tm unfolding nw t by simp
  have ls: "lines = [''/ | Total: 4.00 GB | Used: 2.50 GB | Free: 1.50 GB'' @ [nl],
                     ''/home | Total: 1.00 MB | Used: 512.00 KB | Free: 512.00 KB'' @ [nl]]"
    using la unfolding D_def by (auto simp add: list_all2_Cons1 f)
  have r: "save_history example_env D history_filename W =
        (print (OKCYAN @ [nl] @ ''Data saved to '' @ [CHR 0x27] @ history_filename @ [CHR 0x27] @ ENDC)
           (W\<lparr>host := (host W)\<lparr>files := (files (host W))(history_filename \<mapsto>
                ([nl] @ ESC # ''[95m'' @ replicate 40 CHR ''-'' @ [nl]
                       @ ''Timestamp: 2024-03-09 14:05:07'' @ [nl])
                @ [nl] @ MAGENTA @ replicate 40 CHR ''-'' @ [nl]
                @ ''Timestamp: '' @ ''2024-03-09 14:05:07'' @ [nl] @ concat lines)\<rparr>\<rparr>),
         None)"
    using sh unfolding k old by simp
  have 1: "snd (save_history example_env D history_filename W) = None"
    unfolding r by simp
  have 2: "files (host (fst (save_history example_env D history_filename W))) history_filename
     = Some (([nl] @ ESC # ''[95m'' @ replicate 40 CHR ''-'' @ [nl]
              @ ''Timestamp: 2024-03-09 14:05:07'' @ [nl])
             @ [nl] @ ESC # ''[95m'' @ replicate 40 CHR ''-'' @ [nl]
             @ ''Timestamp: 2024-03-09 14:05:07'' @ [nl]
             @ ''/ | Total: 4.00 GB | Used: 2.50 GB | Free: 1.50 GB'' @ [nl]
             @ ''/home | Total: 1.00 MB | Used: 512.00 KB | Free: 512.00 KB'' @ [nl])"
    unfolding r ls by (simp add: print_def MAGENTA_def)
  show ?thesis using 1 2 unfolding W_def D_def by (intro conjI)
qed

section \<open>Writing a record and reading it back\<close>

lemma nearest_double_465_66:
  "nearest_double (23283 / 50) = Some (8191977353442755 / 17592186044416)"
proof -
  have "nearest_double (23283 / 50)
          = Some (of_int (round_half_even ((23283 / 50) / 2 powi (8 - 52))) * 2 powi (8 - 52))"
    by (rule nearest_double_in_range) (simp_all add: power_int_def)
  moreover have "(23283 / 50 :: rat) / 2 powi (8 - 52) = 409598867672137728 / 50"
    by (simp add: power_int_def power_divide)
  moreover have "round_half_even (409598867672137728 / 50) = 8191977353442755"
    by (simp add: rhe_numeral_div)
  ultimately show ?thesis by (simp add: power_int_def power_divide)
qed

lemma nearest_double_279_40:
  "nearest_double (1397 / 5) = Some (2457628390404915 / 8796093022208)"
proof -
  have "nearest_double (1397 / 5)
          = Some (of_int (round_half_even ((1397 / 5) / 2 powi (8 - 52))) * 2 powi (8 - 52))"
    by (rule nearest_double_in_range) (simp_all add: power_int_def)
  moreover have "(1397 / 5 :: rat) / 2 powi (8 - 52) = 24576283904049152 / 5"
    by (simp add: power_int_def power_divide)
  moreover have "round_half_even (24576283904049152 / 5) = 4915256780809830"
    by (simp add: rhe_numeral_div)
  ultimately show ?thesis by (simp add: power_int_def power_divide)
qed

lemma field_465_66: "field_value '' Total: 465.66 GB '' = Inr (Finite (8191977353442755 / 17592186044416))"
  by (simp add: str_eval nearest_double_465_66)

lemma field_279_40: "field_value '' Used: 279.40 GB '' = Inr (Finite (2457628390404915 / 8796093022208))"
  by (simp add: str_eval nearest_double_279_40)


lemma parse_history_block:
  assumes "\<not> py_in ''Total'' (''Timestamp: '' @ t @ [nl])"
    and "parse_line (l @ [nl]) ([], [], []) = r"
    and "CHR 0x0D \<notin> set t" "CHR 0x0D \<notin> set l" "nl \<notin> set t" "nl \<notin> set l"
  shows "parse_history ([nl] @ ESC # ''[95m'' @ replicate 40 CHR ''-'' @ [nl]
                        @ ''Timestamp: '' @ t @ [nl] @ l @ [nl]) = r"
proof -
  have un: "universal_newlines (xs @ ys) = xs @ universal_newlines ys" if "CHR 0x0D \<notin> set xs" for xs ys
    using that
  proof (induction xs rule: universal_newlines.induct)
    case 1
    then show ?case by simp
  next
    case (2 c)
    then show ?case by (cases ys) auto
  next
    case (3 c d cs)
    then show ?case by auto
  qed
  have un0: "universal_newlines xs = xs" if "CHR 0x0D \<notin> set xs" for xs
    using un[OF that, of "[]"] by simp
  have fl: "file_lines (xs @ nl # ys) = (xs @ [nl]) # file_lines ys" if "nl \<notin> set xs" for xs ys
    using that by (induction xs) (auto split: list.splits)
  define c where "c = [nl] @ ESC # ''[95m'' @ replicate 40 CHR ''-'' @ [nl]
                        @ ''Timestamp: '' @ t @ [nl] @ l @ [nl]"
  have "CHR 0x0D \<notin> set c" unfolding c_def using assms(3,4) by (auto simp add: nl_def ESC_def)
  then have u: "universal_newlines c = c" by (rule un0)
  have f1: "file_lines c = [nl] # file_lines (ESC # ''[95m'' @ replicate 40 CHR ''-'' @ [nl]
                        @ ''Timestamp: '' @ t @ [nl] @ l @ [nl])"
    unfolding c_def using fl[of "[]"] by simp
  have f2: "file_lines ((ESC # ''[95m'' @ replicate 40 CHR ''-'') @ nl # ''Timestamp: '' @ t @ [nl] @ l @ [nl])
      = ((ESC # ''[95m'' @ replicate 40 CHR ''-'') @ [nl]) # file_lines (''Timestamp: '' @ t @ [nl] @ l @ [nl])"
    by (rule fl) (auto simp add: nl_def ESC_def)
  have f3: "file_lines ((''Timestamp: '' @ t) @ nl # l @ [nl])
      = ((''Timestamp: '' @ t) @ [nl]) # file_lines (l @ [nl])"
    by (rule fl) (use assms(5) in \<open>auto simp add: nl_def\<close>)
  have f4: "file_lines (l @ nl # []) = (l @ [nl]) # file_lines []"
    by (rule fl) (rule assms(6))
  have lines: "file_lines c = [[nl], ESC # ''[95m'' @ replicate 40 CHR ''-'' @ [nl],
      ''Timestamp: '' @ t @ [nl], l @ [nl]]"
    using f1 f2 f3 f4 by simp
  have p0: "parse_line [nl] ([], [], []) = ([], [], [])"
    by (simp add: parse_line_def py_in_def nl_def sublist_Cons_right)
  have p1: "parse_line (ESC # ''[95m'' @ replicate 40 CHR ''-'' @ [nl]) ([], [], []) = ([], [], [])"
    by (simp add: parse_line_def py_in_def nl_def ESC_def sublist_Cons_right eval_nat_numeral)
  have p2: "parse_line (''Timestamp: '' @ t @ [nl]) ([], [], []) = ([], [], [])"
    using assms(1) by (simp add: parse_line_def)
  show ?thesis
    unfolding parse_history_def c_def[symmetric] u lines using p0 p1 p2 assms(2) by simp
qed


lemma strftime_example:
  "strftime \<lparr>year = 2024, month = 3, day = 9, hour = 14, minute = 5, second = 7\<rparr>
     = ''2024-03-09 14:05:07''"
  by (simp add: strftime_def pad_eval show_int.simps digit_char_def)

lemma plot_usage_chart:
  assumes "HAS_MATPLOTLIB env" and "files (host w) history_filename = Some content"
    and "open_error env (host w) history_filename = None"
    and "parse_history content = (d # ds, us, fs)"
  shows "charts (fst (plot_usage env w)) = charts w @ [(d # ds, us, fs)]"
  using assms by (simp add: plot_usage_def)

text \<open>
  Claim C1 on its own example. \<open>save_history\<close> writes the sizes of the snapshot
  \<open>("C", 500e9, 300e9, 200e9)\<close> as \<open>465.66 GB\<close>, \<open>279.40 GB\<close> and \<open>186.26 GB\<close>. The parser of
  \<open>plot_usage\<close> takes the fields 1 and 2 of the line, which are the total and the used
  size: what it recovers, and what the chart shows as used and free, is \<open>465.66\<close> and
  \<open>279.40\<close> (the doubles nearest to them), each more than 0.01 away from the used and
  the free size in GB, \<open>279.40\<close> and \<open>186.26\<close>.
\<close>
theorem history_round_trip_reads_total_and_used:
  "map_option parse_history
     (files (host (fst (save_history example_env
        [(''C'', 500000000000, 300000000000, 200000000000)] history_filename
        (example_world nothing_fails)))) history_filename)
     = Some ([''C''], [Finite (8191977353442755 / 17592186044416)],
             [Finite (2457628390404915 / 8796093022208)])
   \<and> charts (fst (plot_usage (example_env\<lparr>HAS_MATPLOTLIB := True\<rparr>)
        (fst (save_history example_env
           [(''C'', 500000000000, 300000000000, 200000000000)] history_filename
           (example_world nothing_fails)))))
     = [([''C''], [Finite (8191977353442755 / 17592186044416)],
         [Finite (2457628390404915 / 8796093022208)])]
   \<and> \<bar>8191977353442755 / 17592186044416 - 500000000000 / 1024 ^ 3 :: rat\<bar> \<le> 1 / 100
   \<and> \<bar>2457628390404915 / 8796093022208 - 300000000000 / 1024 ^ 3 :: rat\<bar> \<le> 1 / 100
   \<and> \<not> \<bar>8191977353442755 / 17592186044416 - 300000000000 / 1024 ^ 3 :: rat\<bar> \<le> 1 / 100
   \<and> \<not> \<bar>2457628390404915 / 8796093022208 - 200000000000 / 1024 ^ 3 :: rat\<bar> \<le> 1 / 100"
proof -
  define W where "W = fst (save_history example_env
        [(''C'', 500000000000, 300000000000, 200000000000)] history_filename
        (example_world nothing_fails))"
  define content where "content = [nl] @ ESC # ''[95m'' @ replicate 40 CHR ''-'' @ [nl]
             @ ''Timestamp: '' @ ''2024-03-09 14:05:07'' @ [nl]
             @ ''C | Total: 465.66 GB | Used: 279.40 GB | Free: 186.26 GB'' @ [nl]"
  have f: "format_size 500000000000 = Inr ''465.66 GB''"
    "format_size 300000000000 = Inr ''279.40 GB''"
    "format_size 200000000000 = Inr ''186.26 GB''"
    by (simp_all add: format_size_def size_and_unit_exact fmt_eval)
  have fl: "files (host W) history_filename = Some content"
    unfolding W_def content_def
    by (simp add: save_history_def example_env_def example_world_def history_line_def f
        strftime_example MAGENTA_def print_def)
  define l where "l = ''C | Total: 465.66 GB | Used: 279.40 GB | Free: 186.26 GB'' @ [nl]"
  have sp: "split CHR ''|'' (strip l)
      = [''C '', '' Total: 465.66 GB '', '' Used: 279.40 GB '', '' Free: 186.26 GB'']"
    by (simp add: l_def str_eval)
  have pin: "py_in ''Total'' l"
    by (simp add: l_def str_eval)
  have dn: "strip ''C '' = ''C''" by (simp add: str_eval)
  have "parse_line l ([], [], [])
      = ([''C''], [Finite (8191977353442755 / 17592186044416)],
         [Finite (2457628390404915 / 8796093022208)])"
    unfolding parse_line_def sp Let_def using pin
    by (simp add: field_465_66 field_279_40 dn)
  then have pl: "parse_line (''C | Total: 465.66 GB | Used: 279.40 GB | Free: 186.26 GB'' @ [nl]) ([], [], [])
      = ([''C''], [Finite (8191977353442755 / 17592186044416)],
         [Finite (2457628390404915 / 8796093022208)])"
    unfolding l_def .
  have nt: "\<not> py_in ''Total'' (''Timestamp: '' @ ''2024-03-09 14:05:07'' @ [nl])"
    by (simp add: str_eval)
  have ph: "parse_history content = ([''C''], [Finite (8191977353442755 / 17592186044416)],
             [Finite (2457628390404915 / 8796093022208)])"
    unfolding content_def by (rule parse_history_block[OF nt pl]) (simp_all add: nl_def)
  have 1: "map_option parse_history (files (host W) history_filename)
     = Some ([''C''], [Finite (8191977353442755 / 17592186044416)],
             [Finite (2457628390404915 / 8796093022208)])"
    unfolding fl using ph by simp
  have cw: "charts W = []"
    unfolding W_def
    by (simp add: save_history_def example_env_def example_world_def history_line_def f print_def)
  have 2: "charts (fst (plot_usage (example_env\<lparr>HAS_MATPLOTLIB := True\<rparr>) W))
     = [([''C''], [Finite (8191977353442755 / 17592186044416)],
         [Finite (2457628390404915 / 8796093022208)])]"
    using plot_usage_chart[of "example_env\<lparr>HAS_MATPLOTLIB := True\<rparr>" W content "''C''" "[]", OF _ fl _ ph]
    by (simp add: example_env_def cw)
  have 3: "\<bar>8191977353442755 / 17592186044416 - 500000000000 / 1024 ^ 3 :: rat\<bar> \<le> 1 / 100"
    "\<bar>2457628390404915 / 8796093022208 - 300000000000 / 1024 ^ 3 :: rat\<bar> \<le> 1 / 100"
    "\<not> \<bar>8191977353442755 / 17592186044416 - 300000000000 / 1024 ^ 3 :: rat\<bar> \<le> 1 / 100"
    "\<not> \<bar>2457628390404915 / 8796093022208 - 200000000000 / 1024 ^ 3 :: rat\<bar> \<le> 1 / 100"
    by simp_all
  show ?thesis using 1 2 3 unfolding W_def by (intro conjI)
qed


text \<open>
  Claim C3 on a line that \<open>save_history\<close> writes for a drive of 4 GB with 512 MB free.
  The free size of the line is in MB and is no number once \<open>GB\<close> is removed, yet the line
  is not skipped: the parser never reads that field. It takes the total, 4.00, as the
  used size and the used size, 3.50, as the free size, and the chart shows them.
\<close>
theorem parse_history_keeps_line_with_free_in_MB:
  "files (host (fst (save_history example_env
        [(''D'', 4294967296, 3758096384, 536870912)] history_filename
        (example_world nothing_fails)))) history_filename
     = Some ([nl] @ ESC # ''[95m'' @ replicate 40 CHR ''-'' @ [nl]
             @ ''Timestamp: 2024-03-09 14:05:07'' @ [nl]
             @ ''D | Total: 4.00 GB | Used: 3.50 GB | Free: 512.00 MB'' @ [nl])
   \<and> field_value '' Free: 512.00 MB'' = Inl ValueError
   \<and> map_option parse_history
     (files (host (fst (save_history example_env
        [(''D'', 4294967296, 3758096384, 536870912)] history_filename
        (example_world nothing_fails)))) history_filename)
     = Some ([''D''], [Finite 4], [Finite (7 / 2)])
   \<and> charts (fst (plot_usage (example_env\<lparr>HAS_MATPLOTLIB := True\<rparr>)
        (fst (save_history example_env
           [(''D'', 4294967296, 3758096384, 536870912)] history_filename
           (example_world nothing_fails)))))
     = [([''D''], [Finite 4], [Finite (7 / 2)])]"
proof -
  define W where "W = fst (save_history example_env
        [(''D'', 4294967296, 3758096384, 536870912)] history_filename
        (example_world nothing_fails))"
  define content where "content = [nl] @ ESC # ''[95m'' @ replicate 40 CHR ''-'' @ [nl]
             @ ''Timestamp: '' @ ''2024-03-09 14:05:07'' @ [nl]
             @ ''D | Total: 4.00 GB | Used: 3.50 GB | Free: 512.00 MB'' @ [nl]"
  have f: "format_size 4294967296 = Inr ''4.00 GB''"
    "format_size 3758096384 = Inr ''3.50 GB''"
    "format_size 536870912 = Inr ''512.00 MB''"
    by (simp_all add: format_size_def size_and_unit_exact fmt_eval)
  have fl: "files (host W) history_filename = Some content"
    unfolding W_def content_def
    by (simp add: save_history_def example_env_def example_world_def history_line_def f
        strftime_example MAGENTA_def print_def)
  have n4: "nearest_double 4 = Some 4" using nearest_double_exact[of 4 0] by simp
  have n72: "nearest_double (7 / 2) = Some (7 / 2)" using nearest_double_exact[of 7 1] by simp
  have fv: "field_value '' Total: 4.00 GB '' = Inr (Finite 4)"
    "field_value '' Used: 3.50 GB '' = Inr (Finite (7 / 2))"
    by (simp_all add: str_eval n4 n72)
  have ff: "field_value '' Free: 512.00 MB'' = Inl ValueError" by (simp add: str_eval)
  define l where "l = ''D | Total: 4.00 GB | Used: 3.50 GB | Free: 512.00 MB'' @ [nl]"
  have sp: "split CHR ''|'' (strip l)
      = [''D '', '' Total: 4.00 GB '', '' Used: 3.50 GB '', '' Free: 512.00 MB'']"
    by (simp add: l_def str_eval)
  have pin: "py_in ''Total'' l"
    by (simp add: l_def str_eval)
  have dn: "strip ''D '' = ''D''" by (simp add: str_eval)
  have "parse_line l ([], [], []) = ([''D''], [Finite 4], [Finite (7 / 2)])"
    unfolding parse_line_def sp Let_def using pin by (simp add: fv dn)
  then have pl: "parse_line (''D | Total: 4.00 GB | Used: 3.50 GB | Free: 512.00 MB'' @ [nl]) ([], [], [])
      = ([''D''], [Finite 4], [Finite (7 / 2)])"
    unfolding l_def .
  have nt: "\<not> py_in ''Total'' (''Timestamp: '' @ ''2024-03-09 14:05:07'' @ [nl])"
    by (simp add: str_eval)
  have ph: "parse_history content = ([''D''], [Finite 4], [Finite (7 / 2)])"
    unfolding content_def by (rule parse_history_block[OF nt pl]) (simp_all add: nl_def)
  have 1: "files (host W) history_filename
     = Some ([nl] @ ESC # ''[95m'' @ replicate 40 CHR ''-'' @ [nl]
             @ ''Timestamp: 2024-03-09 14:05:07'' @ [nl]
             @ ''D | Total: 4.00 GB | Used: 3.50 GB | Free: 512.00 MB'' @ [nl])"
    unfolding fl content_def by simp
  have 2: "map_option parse_history (files (host W) history_filename)
     = Some ([''D''], [Finite 4], [Finite (7 / 2)])"
    unfolding fl using ph by simp
  have cw: "charts W = []"
    unfolding W_def
    by (simp add: save_history_def example_env_def example_world_def history_line_def f print_def)
  have 3: "charts (fst (plot_usage (example_env\<lparr>HAS_MATPLOTLIB := True\<rparr>) W))
     = [([''D''], [Finite 4], [Finite (7 / 2)])]"
    using plot_usage_chart[of "example_env\<lparr>HAS_MATPLOTLIB := True\<rparr>" W content "''D''" "[]", OF _ fl _ ph]
    by (simp add: example_env_def cw)
  show ?thesis using 1 ff 2 3 unfolding W_def by (intro conjI)
qed

end
